theory Spec2Isabelle
  imports Main
begin

section \<open>Strings\<close>

text \<open>
  JavaScript strings are modelled as HOL strings. The model is exact on ASCII text:
  \<open>toLowerCase\<close> maps \<open>A\<close>..\<open>Z\<close> to \<open>a\<close>..\<open>z\<close> and leaves every other character as it
  is, and the regular expression class \<open>\s\<close> is the six ASCII white-space characters.
\<close>

definition slash :: char where
  "slash = CHR ''/''"

definition dquote :: char where
  "dquote = CHR 0x22"

definition backslash :: char where
  "backslash = CHR 0x5C"

definition newline :: char where
  "newline = CHR 0x0A"

definition is_space :: "char \<Rightarrow> bool" where
  "is_space c = (c \<in> set [CHR 0x09, CHR 0x0A, CHR 0x0B, CHR 0x0C, CHR 0x0D, CHR 0x20])"

text \<open>\<open>s.trim()\<close> is the empty string, which is falsy, exactly when \<open>s\<close> is blank.\<close>

definition blank :: "string \<Rightarrow> bool" where
  "blank s = list_all is_space s"

text \<open>\<open>s.split('/')\<close>: the empty string splits into one empty segment.\<close>

fun split_on :: "char \<Rightarrow> string \<Rightarrow> string list" where
  "split_on c [] = [[]]"
| "split_on c (x # xs) =
     (if x = c then [] # split_on c xs
      else (case split_on c xs of
              [] \<Rightarrow> [[x]]
            | seg # segs \<Rightarrow> (x # seg) # segs))"

text \<open>\<open>s.replace('/', '-')\<close> with a string pattern replaces the first occurrence only.\<close>

fun replace_first :: "char \<Rightarrow> string \<Rightarrow> string \<Rightarrow> string" where
  "replace_first c r [] = []"
| "replace_first c r (x # xs) = (if x = c then r @ xs else x # replace_first c r xs)"

text \<open>\<open>s.replace(/c/g, r)\<close> for a class of single characters.\<close>

definition replace_all :: "(char \<Rightarrow> bool) \<Rightarrow> string \<Rightarrow> string \<Rightarrow> string" where
  "replace_all cls r s = concat (map (\<lambda>c. if cls c then r else [c]) s)"

text \<open>\<open>s.replace(/\s+/g, r)\<close>: every maximal run of white space becomes one \<open>r\<close>.\<close>

function replace_space_runs :: "string \<Rightarrow> string \<Rightarrow> string" where
  "replace_space_runs r [] = []"
| "replace_space_runs r (c # cs) =
     (if is_space c then r @ replace_space_runs r (dropWhile is_space cs)
      else c # replace_space_runs r cs)"
  by pat_completeness auto
termination
  by (relation "measure (\<lambda>(r, s). length s)")
     (auto simp: length_dropWhile_le less_Suc_eq_le)

definition upper_letters :: string where
  "upper_letters = ''ABCDEFGHIJKLMNOPQRSTUVWXYZ''"

definition lower_letters :: string where
  "lower_letters = ''abcdefghijklmnopqrstuvwxyz''"

definition lower_char :: "char \<Rightarrow> char" where
  "lower_char c = (case map_of (zip upper_letters lower_letters) c of
                     None \<Rightarrow> c
                   | Some l \<Rightarrow> l)"

definition toLowerCase :: "string \<Rightarrow> string" where
  "toLowerCase s = map lower_char s"

text \<open>The decimal digits of a number, as a template literal prints an integer.\<close>

definition digit_char :: "nat \<Rightarrow> char" where
  "digit_char d = ''0123456789'' ! d"

fun show_nat :: "nat \<Rightarrow> string" where
  "show_nat n = (if n < 10 then [digit_char n] else show_nat (n div 10) @ [digit_char (n mod 10)])"

declare show_nat.simps [simp del]

section \<open>Tags\<close>

text \<open>The characters of the class \<open>[a-z0-9/_-]\<close>.\<close>

definition tag_chars :: string where
  "tag_chars = ''abcdefghijklmnopqrstuvwxyz0123456789/_-''"

text \<open>
  \<open>normalizeTag\<close>: lower-case the tag, then replace every character outside
  \<open>[a-z0-9/_-]\<close> by an underscore.
\<close>

definition normalizeTag :: "string \<Rightarrow> string" where
  "normalizeTag tag = replace_all (\<lambda>c. c \<notin> set tag_chars) ''_'' (toLowerCase tag)"

section \<open>Data model\<close>

record settings =
  apiToken :: string
  username :: string
  targetDirectory :: string
  lastFetchDate :: string
  syncEnabled :: bool
  syncPullRequests :: bool
  lastPRFetchDate :: string
  prDirectory :: string
  useDefaultTemplateStar :: bool
  templatePathStar :: string
  useDefaultTemplatePR :: bool
  templatePathPR :: string

definition DEFAULT_SETTINGS :: settings where
  "DEFAULT_SETTINGS =
     \<lparr>apiToken = '''', username = '''', targetDirectory = '''', lastFetchDate = '''',
      syncEnabled = True, syncPullRequests = True, lastPRFetchDate = '''', prDirectory = '''',
      useDefaultTemplateStar = True, templatePathStar = '''',
      useDefaultTemplatePR = True, templatePathPR = ''''\<rparr>"

record repo_owner =
  login :: string
  avatar_url :: string

text \<open>A string field that the API may leave empty is falsy when it is \<open>''''\<close>.\<close>

record StarredRepo =
  name :: string
  full_name :: string
  html_url :: string
  description :: string
  created_at :: string
  updated_at :: string
  language :: string
  stargazers_count :: nat
  topics :: "string list"
  owner :: repo_owner

text \<open>The nested \<open>pull_request\<close> object of a search result.\<close>

record pull_request_ref =
  ref_url :: string
  ref_html_url :: string
  ref_merged_at :: "string option"

text \<open>
  A pull request of the search endpoint. The fields that share a name with a field of
  \<open>StarredRepo\<close> carry the suffix \<open>_pr\<close>; a label is the \<open>name\<close> of the label object.
\<close>

record PullRequest =
  id_pr :: nat
  number :: nat
  title :: string
  html_url_pr :: string
  state :: string
  created_at_pr :: string
  updated_at_pr :: string
  closed_at :: "string option"
  merged_at :: "string option"
  draft :: bool
  pull_request :: "pull_request_ref option"
  repository_url :: string
  labels :: "string list"

text \<open>A value of the frontmatter object.\<close>

datatype yaml = YStr string | YNum nat | YBool bool | YList "string list"

text \<open>
  A note has a structured metadata block and a body. \<open>processFrontMatter\<close> reads and
  writes the block and leaves the body alone.
\<close>

record note_file =
  frontmatter :: "string \<rightharpoonup> yaml"
  body :: string

datatype entry = File note_file | Folder

datatype error = Error string

fun message :: "error \<Rightarrow> string" where
  "message (Error m) = m"

text \<open>
  One HTTP GET of \<open>requestUrl\<close>: the query parameters that the URL is built from and the
  \<open>Authorization\<close> header, present when the token is set.
\<close>

datatype endpoint = UsersStarred | SearchIssues

record request =
  req_endpoint :: endpoint
  req_user :: string
  req_per_page :: nat
  req_page :: nat
  req_authorization :: "string option"

text \<open>
  What a run does that is visible from outside, in order. \<open>RepoNote\<close> and \<open>PRNote\<close>
  record each return of \<open>createNoteForRepo\<close> and \<open>createNoteForPR\<close> with the returned
  boolean.
\<close>

datatype event =
    Notice string
  | ConsoleError string error
  | HttpGet request
  | SaveData settings
  | RepoNote StarredRepo bool
  | PRNote PullRequest bool

text \<open>The calls of the vault that may throw for a reason of the host's.\<close>

datatype host_call = VaultCreate string | ProcessFrontMatter string | CreateFolder string

text \<open>
  The host: Obsidian, the network, the Handlebars library and the clock. They are inputs
  of a run. \<open>requestStars\<close> and \<open>requestPRs\<close> are \<open>requestUrl\<close> with the JSON of the
  answer decoded, or the error it throws. \<open>handlebarsStar\<close> and \<open>handlebarsPR\<close> compile a
  template and apply it to a record. \<open>noteText\<close> is the text of a file as it is on disk.
  \<open>faults\<close> gives the error that a vault call throws, if it throws. The clock is read
  through \<open>nowISO\<close> (\<open>new Date().toISOString()\<close>), \<open>nowLocale\<close>, \<open>todayYMD\<close> and
  \<open>formatYMD\<close>, the local date of a timestamp. \<open>vault.adapter.exists\<close>, \<open>saveData\<close>,
  \<open>Notice\<close> and \<open>console.error\<close> are taken not to throw.
\<close>

record host =
  requestStars :: "request \<Rightarrow> error + StarredRepo list"
  requestPRs :: "request \<Rightarrow> error + PullRequest list"
  handlebarsStar :: "string \<Rightarrow> StarredRepo \<Rightarrow> error + string"
  handlebarsPR :: "string \<Rightarrow> PullRequest \<Rightarrow> error + string"
  noteText :: "note_file \<Rightarrow> string"
  faults :: "host_call \<Rightarrow> error option"
  nowISO :: string
  nowLocale :: string
  todayYMD :: string
  formatYMD :: "string \<Rightarrow> string"

text \<open>
  The plugin object and the vault it works on. \<open>vault\<close> gives what is at a path, a file
  or a folder; \<open>vault.adapter.exists\<close> and \<open>getAbstractFileByPath\<close> both read it. \<open>log\<close>
  is what has been done so far.
\<close>

record world =
  settings :: settings
  vault :: "string \<rightharpoonup> entry"
  log :: "event list"

section \<open>Host calls\<close>

text \<open>A function that may throw returns the error or the value, and the world it leaves.\<close>

type_synonym 'a outcome = "(error + 'a) \<times> world"

definition emit :: "event \<Rightarrow> world \<Rightarrow> world" where
  "emit e w = w\<lparr>log := log w @ [e]\<rparr>"

text \<open>\<open>vault.adapter.exists\<close>: true for a file and for a folder.\<close>

definition adapter_exists :: "world \<Rightarrow> string \<Rightarrow> bool" where
  "adapter_exists w p = (vault w p \<noteq> None)"

text \<open>\<open>vault.adapter.read\<close>: the text of a file.\<close>

definition adapter_read :: "host \<Rightarrow> string \<Rightarrow> world \<Rightarrow> error + string" where
  "adapter_read h p w =
     (case vault w p of
        Some (File n) \<Rightarrow> Inr (noteText h n)
      | _ \<Rightarrow> Inl (Error (''Cannot read file: '' @ p)))"

definition createFolder :: "host \<Rightarrow> string \<Rightarrow> world \<Rightarrow> unit outcome" where
  "createFolder h p w =
     (case faults h (CreateFolder p) of
        Some e \<Rightarrow> (Inl e, w)
      | None \<Rightarrow>
          if adapter_exists w p then (Inl (Error ''Folder already exists.''), w)
          else (Inr (), w\<lparr>vault := (vault w)(p \<mapsto> Folder)\<rparr>))"

text \<open>\<open>vault.create\<close>: a new file whose text is the content; nothing is overwritten.\<close>

definition vault_create :: "host \<Rightarrow> string \<Rightarrow> string \<Rightarrow> world \<Rightarrow> unit outcome" where
  "vault_create h p content w =
     (case faults h (VaultCreate p) of
        Some e \<Rightarrow> (Inl e, w)
      | None \<Rightarrow>
          if adapter_exists w p then (Inl (Error ''File already exists.''), w)
          else (Inr (), w\<lparr>vault := (vault w)(p \<mapsto> File \<lparr>frontmatter = Map.empty, body = content\<rparr>)\<rparr>))"

text \<open>
  \<open>fileManager.processFrontMatter\<close>: the callback changes the frontmatter object of the
  file, the body stays.
\<close>

definition processFrontMatter ::
  "host \<Rightarrow> string \<Rightarrow> ((string \<rightharpoonup> yaml) \<Rightarrow> (string \<rightharpoonup> yaml)) \<Rightarrow> world \<Rightarrow> unit outcome" where
  "processFrontMatter h p f w =
     (case faults h (ProcessFrontMatter p) of
        Some e \<Rightarrow> (Inl e, w)
      | None \<Rightarrow>
          (case vault w p of
             Some (File n) \<Rightarrow>
               (Inr (), w\<lparr>vault := (vault w)(p \<mapsto> File (n\<lparr>frontmatter := f (frontmatter n)\<rparr>))\<rparr>)
           | _ \<Rightarrow> (Inl (Error (''Not a file: '' @ p)), w)))"

section \<open>Directories\<close>

text \<open>
  The loop of \<open>ensureTargetDirectoryExists\<close>, \<open>ensurePRDirectoryExists\<close> and
  \<open>ensureDirectoryExists\<close>, which differ in the path they split only.
\<close>

fun ensureDirs :: "host \<Rightarrow> string \<Rightarrow> string list \<Rightarrow> world \<Rightarrow> unit outcome" where
  "ensureDirs h currentPath [] w = (Inr (), w)"
| "ensureDirs h currentPath (dir # dirs) w =
     (let cur = (if currentPath \<noteq> '''' then currentPath @ ''/'' @ dir else dir) in
      if adapter_exists w cur then ensureDirs h cur dirs w
      else (case createFolder h cur w of
              (Inl e, w1) \<Rightarrow> (Inl e, w1)
            | (Inr u, w1) \<Rightarrow> ensureDirs h cur dirs w1))"

definition path_segments :: "string \<Rightarrow> string list" where
  "path_segments dirPath = filter (\<lambda>p. \<not> blank p) (split_on slash dirPath)"

definition ensureDirectoryExists :: "host \<Rightarrow> string \<Rightarrow> world \<Rightarrow> unit outcome" where
  "ensureDirectoryExists h dirPath w = ensureDirs h '''' (path_segments dirPath) w"

definition ensureTargetDirectoryExists :: "host \<Rightarrow> world \<Rightarrow> unit outcome" where
  "ensureTargetDirectoryExists h w =
     ensureDirs h '''' (path_segments (targetDirectory (settings w))) w"

text \<open>\<open>prDirectory || targetDirectory\<close>\<close>

definition prDir :: "settings \<Rightarrow> string" where
  "prDir st = (if prDirectory st \<noteq> '''' then prDirectory st else targetDirectory st)"

definition ensurePRDirectoryExists :: "host \<Rightarrow> world \<Rightarrow> unit outcome" where
  "ensurePRDirectoryExists h w = ensureDirs h '''' (path_segments (prDir (settings w))) w"

section \<open>Templates\<close>

definition readTemplate :: "host \<Rightarrow> bool \<Rightarrow> string \<Rightarrow> string \<Rightarrow> world \<Rightarrow> string outcome" where
  "readTemplate h forceDefault templatePath defaultTemplate w =
     (if forceDefault then (Inr defaultTemplate, w)
      else if templatePath = '''' then
        (Inr defaultTemplate, emit (Notice ''Template path not set. Use default template.'') w)
      else if \<not> adapter_exists w templatePath then
        (Inr defaultTemplate,
         emit (Notice (''Template not found: '' @ templatePath @ ''. Using default.'')) w)
      else (adapter_read h templatePath w, w))"

text \<open>
  \<open>renderTemplate\<close>, with the Handlebars compiler of the record's type as a parameter.
\<close>

definition renderTemplate ::
  "host \<Rightarrow> (string \<Rightarrow> 'r \<Rightarrow> error + string) \<Rightarrow> bool \<Rightarrow> string \<Rightarrow> string \<Rightarrow> 'r \<Rightarrow> world
     \<Rightarrow> string outcome" where
  "renderTemplate h compile forceDefault templatePath defaultTemplate obj w =
     (case readTemplate h forceDefault templatePath defaultTemplate w of
        (Inl e, w1) \<Rightarrow> (Inl e, w1)
      | (Inr templateContent, w1) \<Rightarrow> (compile templateContent obj, w1))"

section \<open>Settings\<close>

definition saveSettings :: "world \<Rightarrow> world" where
  "saveSettings w = emit (SaveData (settings w)) w"

definition settingsAreValid :: "settings \<Rightarrow> bool" where
  "settingsAreValid st = (username st \<noteq> '''' \<and> targetDirectory st \<noteq> '''')"

definition perPage :: nat where
  "perPage = 100"

text \<open>The \<open>Authorization\<close> header is added when the token is set.\<close>

definition authorization :: "settings \<Rightarrow> string option" where
  "authorization st = (if apiToken st \<noteq> '''' then Some (''token '' @ apiToken st) else None)"

section \<open>Starred repositories\<close>

text \<open>The \<open>RequestUrlParam\<close> that \<open>getStarredRepos\<close> builds.\<close>

definition starredParams :: "settings \<Rightarrow> nat \<Rightarrow> request" where
  "starredParams st page =
     \<lparr>req_endpoint = UsersStarred, req_user = username st, req_per_page = perPage,
      req_page = page, req_authorization = authorization st\<rparr>"

definition getStarredRepos :: "host \<Rightarrow> nat \<Rightarrow> world \<Rightarrow> (StarredRepo list \<times> bool) outcome" where
  "getStarredRepos h page w =
     (let params = starredParams (settings w) page;
          w1 = emit (HttpGet params) w
      in case requestStars h params of
           Inl e \<Rightarrow> (Inl e, w1)
         | Inr stars \<Rightarrow> (Inr (stars, length stars = perPage), w1))"

definition fileNameForRepo :: "settings \<Rightarrow> StarredRepo \<Rightarrow> string" where
  "fileNameForRepo st repo =
     targetDirectory st @ ''/'' @ replace_first slash ''-'' (full_name repo) @ ''.md''"

definition defaultTemplateStar :: string where
  "defaultTemplateStar = ''# {{ name }}'' @ [newline, newline]"

definition starTags :: "StarredRepo \<Rightarrow> string list" where
  "starTags repo =
     [''type/github-star'']
     @ (if language repo \<noteq> '''' then [''github/language/'' @ normalizeTag (language repo)] else [])
     @ map (\<lambda>topic. ''github/topic/'' @ normalizeTag topic) (topics repo)"

text \<open>The callback given to \<open>processFrontMatter\<close> for a starred repository.\<close>

definition starFrontMatter :: "host \<Rightarrow> StarredRepo \<Rightarrow> (string \<rightharpoonup> yaml) \<Rightarrow> (string \<rightharpoonup> yaml)" where
  "starFrontMatter h repo fm =
     fm(''tags'' \<mapsto> YList (starTags repo),
        ''aliases'' \<mapsto> YList [name repo],
        ''description'' \<mapsto>
          YStr (replace_all (\<lambda>c. c = dquote) [backslash, dquote]
                  (if description repo \<noteq> '''' then description repo else ''No description'')),
        ''url'' \<mapsto> YStr (html_url repo),
        ''owner'' \<mapsto> YStr (''https://github.com/'' @ login (owner repo)),
        ''language'' \<mapsto> YStr (if language repo \<noteq> '''' then language repo else ''Not specified''),
        ''stars'' \<mapsto> YNum (stargazers_count repo),
        ''created'' \<mapsto> YStr (formatYMD h (created_at repo)),
        ''modified'' \<mapsto> YStr (todayYMD h),
        ''lastUpdated'' \<mapsto> YStr (nowLocale h))"

text \<open>
  The first statement of the \<open>try\<close> block: the existing file, or a new file with the
  rendered template. The \<open>TFile\<close> it leaves in \<open>file\<close> is the file at \<open>fileName\<close>.
\<close>

definition createNoteForRepo_file ::
  "host \<Rightarrow> StarredRepo \<Rightarrow> string \<Rightarrow> bool \<Rightarrow> world \<Rightarrow> unit outcome" where
  "createNoteForRepo_file h repo fileName exists w =
     (if exists then
        (case vault w fileName of
           Some (File n) \<Rightarrow> (Inr (), w)
         | _ \<Rightarrow> (Inl (Error (''File exists but couldn't be accessed: '' @ fileName)), w))
      else
        (case renderTemplate h (handlebarsStar h) (useDefaultTemplateStar (settings w))
                (templatePathStar (settings w)) defaultTemplateStar repo w of
           (Inl e, w1) \<Rightarrow> (Inl e, w1)
         | (Inr fileContent, w1) \<Rightarrow> vault_create h fileName fileContent w1))"

text \<open>The whole \<open>try\<close> block.\<close>

definition createNoteForRepo_try ::
  "host \<Rightarrow> StarredRepo \<Rightarrow> string \<Rightarrow> bool \<Rightarrow> world \<Rightarrow> unit outcome" where
  "createNoteForRepo_try h repo fileName exists w =
     (case createNoteForRepo_file h repo fileName exists w of
        (Inl e, w1) \<Rightarrow> (Inl e, w1)
      | (Inr u, w1) \<Rightarrow>
          if useDefaultTemplateStar (settings w1)
          then processFrontMatter h fileName (starFrontMatter h repo) w1
          else (Inr (), w1))"

definition createNoteForRepo :: "host \<Rightarrow> StarredRepo \<Rightarrow> world \<Rightarrow> bool \<times> world" where
  "createNoteForRepo h repo w =
     (let fileName = fileNameForRepo (settings w) repo;
          exists = adapter_exists w fileName;
          w2 = (case createNoteForRepo_try h repo fileName exists w of
                  (Inl e, w1) \<Rightarrow>
                    emit (ConsoleError (''Error creating note for '' @ name repo @ '':'') e) w1
                | (Inr u, w1) \<Rightarrow> w1)
      in (\<not> exists, emit (RepoNote repo (\<not> exists)) w2))"

text \<open>
  The \<open>for\<close> loop over one page. It returns \<open>continueFetch\<close>, \<open>reposCount\<close> and the
  world; \<open>continueFetch\<close> is true whenever the loop is entered.
\<close>

fun fetchStars_items ::
  "host \<Rightarrow> bool \<Rightarrow> StarredRepo list \<Rightarrow> nat \<Rightarrow> world \<Rightarrow> bool \<times> nat \<times> world" where
  "fetchStars_items h firstFetch [] reposCount w = (True, reposCount, w)"
| "fetchStars_items h firstFetch (repo # rest) reposCount w =
     (case createNoteForRepo h repo w of
        (created, w1) \<Rightarrow>
          if \<not> firstFetch \<and> \<not> created then (False, reposCount, w1)
          else fetchStars_items h firstFetch rest (Suc reposCount) w1)"

text \<open>
  The \<open>while\<close> loop over the pages. Each iteration takes one unit of fuel, and a loop
  that is still running when the fuel is used up gives \<open>None\<close>.
\<close>

fun fetchStars_pages ::
  "nat \<Rightarrow> host \<Rightarrow> bool \<Rightarrow> nat \<Rightarrow> nat \<Rightarrow> world \<Rightarrow> (nat outcome) option" where
  "fetchStars_pages 0 h firstFetch page reposCount w = None"
| "fetchStars_pages (Suc fuel) h firstFetch page reposCount w =
     (case getStarredRepos h page w of
        (Inl e, w1) \<Rightarrow> Some (Inl e, w1)
      | (Inr (stars, hasMore), w1) \<Rightarrow>
          (case fetchStars_items h firstFetch stars reposCount w1 of
             (continueFetch, reposCount1, w2) \<Rightarrow>
               let w3 = (if reposCount1 \<noteq> 0
                         then emit (Notice (''Fetched '' @ show_nat reposCount1 @ '' GitHub stars'')) w2
                         else w2)
               in if \<not> hasMore then Some (Inr reposCount1, w3)
                  else if firstFetch \<or> continueFetch
                  then fetchStars_pages fuel h firstFetch (Suc page) reposCount1 w3
                  else Some (Inr reposCount1, w3)))"

text \<open>The \<open>try\<close> block of \<open>fetchStars\<close> up to the end of the page loop.\<close>

definition fetchStars_try :: "nat \<Rightarrow> host \<Rightarrow> world \<Rightarrow> (nat outcome) option" where
  "fetchStars_try fuel h w =
     (case ensureTargetDirectoryExists h w of
        (Inl e, w1) \<Rightarrow> Some (Inl e, w1)
      | (Inr u, w1) \<Rightarrow>
          fetchStars_pages fuel h (lastFetchDate (settings w1) = '''') 1 0 w1)"

definition fetchStars :: "nat \<Rightarrow> host \<Rightarrow> world \<Rightarrow> world option" where
  "fetchStars fuel h w =
     (if \<not> syncEnabled (settings w) then
        Some (emit (Notice ''Sync is disabled. Enable it in settings to fetch stars.'') w)
      else if \<not> settingsAreValid (settings w) then
        Some (emit (Notice ''Please set both GitHub username and target directory in settings.'') w)
      else
        (case fetchStars_try fuel h w of
           None \<Rightarrow> None
         | Some (Inl e, w1) \<Rightarrow>
             Some (emit (Notice (''Error fetching GitHub stars: '' @ message e))
                     (emit (ConsoleError ''Error fetching GitHub stars:'' e) w1))
         | Some (Inr reposCount, w1) \<Rightarrow>
             let w2 = saveSettings (w1\<lparr>settings := (settings w1)\<lparr>lastFetchDate := nowISO h\<rparr>\<rparr>)
             in Some (if reposCount \<noteq> 0
                      then emit (Notice (''Total '' @ show_nat reposCount @ '' GitHub stars'')) w2
                      else w2)))"

text \<open>The command \<open>Fetch stars (force)\<close> and the button of the settings tab.\<close>

definition fetchStarsForce :: "nat \<Rightarrow> host \<Rightarrow> world \<Rightarrow> world option" where
  "fetchStarsForce fuel h w =
     fetchStars fuel h (saveSettings (w\<lparr>settings := (settings w)\<lparr>lastFetchDate := ''''\<rparr>\<rparr>))"

section \<open>Pull requests\<close>

text \<open>The \<open>RequestUrlParam\<close> that \<open>getPullRequests\<close> builds.\<close>

definition pullRequestsParams :: "settings \<Rightarrow> nat \<Rightarrow> request" where
  "pullRequestsParams st page =
     \<lparr>req_endpoint = SearchIssues, req_user = username st, req_per_page = perPage,
      req_page = page, req_authorization = authorization st\<rparr>"

definition getPullRequests :: "host \<Rightarrow> nat \<Rightarrow> world \<Rightarrow> (PullRequest list \<times> bool) outcome" where
  "getPullRequests h page w =
     (let params = pullRequestsParams (settings w) page;
          w1 = emit (HttpGet params) w
      in case requestPRs h params of
           Inl e \<Rightarrow> (Inl e, w1)
         | Inr prs \<Rightarrow> (Inr (prs, length prs = perPage), w1))"

text \<open>An array element inside a template literal: out of range it prints \<open>undefined\<close>.\<close>

definition element_text :: "string list \<Rightarrow> int \<Rightarrow> string" where
  "element_text xs i = (if 0 \<le> i \<and> i < int (length xs) then xs ! nat i else ''undefined'')"

definition repoOwner :: "PullRequest \<Rightarrow> string" where
  "repoOwner pr =
     (let repoUrlParts = split_on slash (repository_url pr)
      in element_text repoUrlParts (int (length repoUrlParts) - 2))"

definition repoName :: "PullRequest \<Rightarrow> string" where
  "repoName pr =
     (let repoUrlParts = split_on slash (repository_url pr)
      in element_text repoUrlParts (int (length repoUrlParts) - 1))"

definition repoFullName :: "PullRequest \<Rightarrow> string" where
  "repoFullName pr = repoOwner pr @ ''/'' @ repoName pr"

text \<open>The characters of the class \<open>[\\/:*?"<>|]\<close>.\<close>

definition invalid_filename_chars :: string where
  "invalid_filename_chars = [backslash, dquote] @ ''/:*?<>|''"

definition safePrTitle :: "PullRequest \<Rightarrow> string" where
  "safePrTitle pr =
     take 50 (replace_space_runs ''_''
                (replace_all (\<lambda>c. c \<in> set invalid_filename_chars) ''-'' (title pr)))"

definition repoDir :: "settings \<Rightarrow> PullRequest \<Rightarrow> string" where
  "repoDir st pr = prDir st @ ''/'' @ repoOwner pr @ ''/'' @ repoName pr"

definition fileNameForPR :: "settings \<Rightarrow> PullRequest \<Rightarrow> string" where
  "fileNameForPR st pr =
     repoDir st pr @ ''/'' @ show_nat (number pr) @ ''_'' @ safePrTitle pr @ ''.md''"

definition defaultTemplatePR :: string where
  "defaultTemplatePR = ''# {{ title }}'' @ [newline, newline]"

text \<open>A nullable string is truthy when it is present and not empty; \<open>a || b\<close>.\<close>

definition truthy :: "string option \<Rightarrow> bool" where
  "truthy a = (a \<noteq> None \<and> a \<noteq> Some '''')"

definition js_or :: "string option \<Rightarrow> string option \<Rightarrow> string option" where
  "js_or a b = (if truthy a then a else b)"

text \<open>\<open>pr.pull_request?.merged_at || pr.merged_at\<close>\<close>

definition mergedAt :: "PullRequest \<Rightarrow> string option" where
  "mergedAt pr =
     js_or (case pull_request pr of None \<Rightarrow> None | Some r \<Rightarrow> ref_merged_at r) (merged_at pr)"

definition text_or :: "string option \<Rightarrow> string \<Rightarrow> string" where
  "text_or a d = (case a of None \<Rightarrow> d | Some s \<Rightarrow> if s \<noteq> [] then s else d)"

definition prLabelTag :: "string \<Rightarrow> string" where
  "prLabelTag label = ''github/pr-label/'' @ replace_space_runs ''-'' (toLowerCase label)"

definition prTags :: "PullRequest \<Rightarrow> string list" where
  "prTags pr =
     [''type/github-pr'']
     @ [''github/pr-state/'' @ state pr]
     @ (if draft pr then [''github/pr-draft''] else [])
     @ (if truthy (mergedAt pr) then [''github/pr-merged''] else [])
     @ map prLabelTag (labels pr)"

text \<open>The callback given to \<open>processFrontMatter\<close> for a pull request.\<close>

definition prFrontMatter :: "host \<Rightarrow> PullRequest \<Rightarrow> (string \<rightharpoonup> yaml) \<Rightarrow> (string \<rightharpoonup> yaml)" where
  "prFrontMatter h pr fm =
     fm(''tags'' \<mapsto> YList (prTags pr),
        ''title'' \<mapsto> YStr (replace_all (\<lambda>c. c = dquote) [backslash, dquote] (title pr)),
        ''url'' \<mapsto> YStr (html_url_pr pr),
        ''repository'' \<mapsto> YStr (repoFullName pr),
        ''repository_url'' \<mapsto> YStr (''https://github.com/'' @ repoFullName pr),
        ''owner'' \<mapsto> YStr (''https://github.com/'' @ repoOwner pr),
        ''pr_number'' \<mapsto> YNum (number pr),
        ''state'' \<mapsto> YStr (state pr),
        ''draft'' \<mapsto> YBool (draft pr),
        ''closed_at'' \<mapsto> YStr (text_or (closed_at pr) ''Not closed''),
        ''merged_at'' \<mapsto> YStr (text_or (mergedAt pr) ''Not merged''),
        ''lastUpdated'' \<mapsto> YStr (nowLocale h))"

definition createNoteForPR_file ::
  "host \<Rightarrow> PullRequest \<Rightarrow> string \<Rightarrow> bool \<Rightarrow> world \<Rightarrow> unit outcome" where
  "createNoteForPR_file h pr fileName exists w =
     (if exists then
        (case vault w fileName of
           Some (File n) \<Rightarrow> (Inr (), w)
         | _ \<Rightarrow> (Inl (Error (''File exists but couldn't be accessed: '' @ fileName)), w))
      else
        (case renderTemplate h (handlebarsPR h) (useDefaultTemplatePR (settings w))
                (templatePathPR (settings w)) defaultTemplatePR pr w of
           (Inl e, w1) \<Rightarrow> (Inl e, w1)
         | (Inr fileContent, w1) \<Rightarrow> vault_create h fileName fileContent w1))"

definition createNoteForPR_try ::
  "host \<Rightarrow> PullRequest \<Rightarrow> string \<Rightarrow> bool \<Rightarrow> world \<Rightarrow> unit outcome" where
  "createNoteForPR_try h pr fileName exists w =
     (case createNoteForPR_file h pr fileName exists w of
        (Inl e, w1) \<Rightarrow> (Inl e, w1)
      | (Inr u, w1) \<Rightarrow>
          if useDefaultTemplatePR (settings w1)
          then processFrontMatter h fileName (prFrontMatter h pr) w1
          else (Inr (), w1))"

text \<open>
  \<open>createNoteForPR\<close> makes the directory of the repository before its \<open>try\<close> block, so
  an error of \<open>ensureDirectoryExists\<close> leaves the function.
\<close>

definition createNoteForPR :: "host \<Rightarrow> PullRequest \<Rightarrow> world \<Rightarrow> bool outcome" where
  "createNoteForPR h pr w =
     (let fileName = fileNameForPR (settings w) pr in
      case ensureDirectoryExists h (repoDir (settings w) pr) w of
        (Inl e, w0) \<Rightarrow> (Inl e, w0)
      | (Inr u, w0) \<Rightarrow>
          let exists = adapter_exists w0 fileName;
              w2 = (case createNoteForPR_try h pr fileName exists w0 of
                      (Inl e, w1) \<Rightarrow>
                        emit (ConsoleError (''Error creating note for PR #'' @ show_nat (number pr) @ '':'') e) w1
                    | (Inr u, w1) \<Rightarrow> w1)
          in (Inr (\<not> exists), emit (PRNote pr (\<not> exists)) w2))"

fun fetchPullRequests_items ::
  "host \<Rightarrow> bool \<Rightarrow> PullRequest list \<Rightarrow> nat \<Rightarrow> world \<Rightarrow> (bool \<times> nat) outcome" where
  "fetchPullRequests_items h firstFetch [] prsCount w = (Inr (True, prsCount), w)"
| "fetchPullRequests_items h firstFetch (pr # rest) prsCount w =
     (case createNoteForPR h pr w of
        (Inl e, w1) \<Rightarrow> (Inl e, w1)
      | (Inr created, w1) \<Rightarrow>
          if \<not> firstFetch \<and> \<not> created then (Inr (False, prsCount), w1)
          else fetchPullRequests_items h firstFetch rest (Suc prsCount) w1)"

fun fetchPullRequests_pages ::
  "nat \<Rightarrow> host \<Rightarrow> bool \<Rightarrow> nat \<Rightarrow> nat \<Rightarrow> world \<Rightarrow> (nat outcome) option" where
  "fetchPullRequests_pages 0 h firstFetch page prsCount w = None"
| "fetchPullRequests_pages (Suc fuel) h firstFetch page prsCount w =
     (case getPullRequests h page w of
        (Inl e, w1) \<Rightarrow> Some (Inl e, w1)
      | (Inr (prs, hasMore), w1) \<Rightarrow>
          (case fetchPullRequests_items h firstFetch prs prsCount w1 of
             (Inl e, w2) \<Rightarrow> Some (Inl e, w2)
           | (Inr (continueFetch, prsCount1), w2) \<Rightarrow>
               let w3 = (if prsCount1 \<noteq> 0
                         then emit (Notice (''Fetched '' @ show_nat prsCount1 @ '' pull requests'')) w2
                         else w2)
               in if \<not> hasMore then Some (Inr prsCount1, w3)
                  else if firstFetch \<or> continueFetch
                  then fetchPullRequests_pages fuel h firstFetch (Suc page) prsCount1 w3
                  else Some (Inr prsCount1, w3)))"

definition fetchPullRequests_try :: "nat \<Rightarrow> host \<Rightarrow> world \<Rightarrow> (nat outcome) option" where
  "fetchPullRequests_try fuel h w =
     (case ensurePRDirectoryExists h w of
        (Inl e, w1) \<Rightarrow> Some (Inl e, w1)
      | (Inr u, w1) \<Rightarrow>
          fetchPullRequests_pages fuel h (lastPRFetchDate (settings w1) = '''') 1 0 w1)"

definition fetchPullRequests :: "nat \<Rightarrow> host \<Rightarrow> world \<Rightarrow> world option" where
  "fetchPullRequests fuel h w =
     (if \<not> syncEnabled (settings w) then
        Some (emit (Notice ''Sync is disabled. Enable it in settings to fetch pull requests.'') w)
      else if \<not> settingsAreValid (settings w) then
        Some (emit (Notice ''Please set both GitHub username and target directory in settings.'') w)
      else
        (case fetchPullRequests_try fuel h w of
           None \<Rightarrow> None
         | Some (Inl e, w1) \<Rightarrow>
             Some (emit (Notice (''Error fetching pull requests: '' @ message e))
                     (emit (ConsoleError ''Error fetching pull requests:'' e) w1))
         | Some (Inr prsCount, w1) \<Rightarrow>
             let w2 = saveSettings (w1\<lparr>settings := (settings w1)\<lparr>lastPRFetchDate := nowISO h\<rparr>\<rparr>)
             in Some (if prsCount \<noteq> 0
                      then emit (Notice (''Total '' @ show_nat prsCount @ '' pull requests'')) w2
                      else w2)))"

definition fetchPullRequestsForce :: "nat \<Rightarrow> host \<Rightarrow> world \<Rightarrow> world option" where
  "fetchPullRequestsForce fuel h w =
     fetchPullRequests fuel h (saveSettings (w\<lparr>settings := (settings w)\<lparr>lastPRFetchDate := ''''\<rparr>\<rparr>))"

section \<open>Reading the log\<close>

text \<open>The events that a run adds to the log.\<close>

definition emitted :: "world \<Rightarrow> world \<Rightarrow> event list" where
  "emitted w w' = drop (length (log w)) (log w')"

text \<open>A request of a page, or the materialization of an item.\<close>

fun is_fetch :: "event \<Rightarrow> bool" where
  "is_fetch (HttpGet r) = True"
| "is_fetch (RepoNote repo created) = True"
| "is_fetch (PRNote pr created) = True"
| "is_fetch e = False"

text \<open>The materializer returned false: the note existed already.\<close>

fun is_existing :: "event \<Rightarrow> bool" where
  "is_existing (RepoNote repo created) = (\<not> created)"
| "is_existing (PRNote pr created) = (\<not> created)"
| "is_existing e = False"

text \<open>What a run fetches: the pages it requests and the items it materializes, in order.\<close>

datatype fetched = Page nat | StarItem StarredRepo | PRItem PullRequest

fun fetch_of :: "event \<Rightarrow> fetched list" where
  "fetch_of (HttpGet r) = [Page (req_page r)]"
| "fetch_of (RepoNote repo created) = [StarItem repo]"
| "fetch_of (PRNote pr created) = [PRItem pr]"
| "fetch_of e = []"

definition fetch_view :: "event list \<Rightarrow> fetched list" where
  "fetch_view evs = concat (map fetch_of evs)"

text \<open>The paths of the vault that hold a file.\<close>

definition files_of :: "world \<Rightarrow> string set" where
  "files_of w = {p. \<exists>n. vault w p = Some (File n)}"

text \<open>An error written to the console.\<close>

fun is_error :: "event \<Rightarrow> bool" where
  "is_error (ConsoleError what e) = True"
| "is_error e = False"

text \<open>
  After the first materializer that returned false, the list holds no request and no
  materialization.
\<close>

fun stops_at_existing :: "event list \<Rightarrow> bool" where
  "stops_at_existing [] = True"
| "stops_at_existing (e # es) =
     (if is_existing e then list_all (\<lambda>x. \<not> is_fetch x) es else stops_at_existing es)"

text \<open>
  The world after some steps of a run: the settings are the same, the log has grown at
  its end, and no path of the vault has been removed.
\<close>

definition grows :: "world \<Rightarrow> world \<Rightarrow> bool" where
  "grows w w' \<longleftrightarrow>
     settings w' = settings w
     \<and> (\<exists>evs. log w' = log w @ evs)
     \<and> (\<forall>p. vault w p \<noteq> None \<longrightarrow> vault w' p \<noteq> None)"

section \<open>The first fetch, as the specification words it\<close>

text \<open>
  Process every page until the remote signals no more results, where fewer items than
  the page size is the only such signal: request the pages in order, materialize every
  item of each, and stop after the first page that is short. An error of the request
  ends the run at that page. The fuel bounds the number of pages as it does in
  \<open>fetchStars_pages\<close>.
\<close>

fun full_backfill :: "nat \<Rightarrow> host \<Rightarrow> settings \<Rightarrow> nat \<Rightarrow> fetched list option" where
  "full_backfill 0 h st page = None"
| "full_backfill (Suc fuel) h st page =
     (case requestStars h (starredParams st page) of
        Inl e \<Rightarrow> Some [Page page]
      | Inr stars \<Rightarrow>
          if length stars < perPage
          then Some (Page page # map StarItem stars)
          else map_option (\<lambda>rest. Page page # map StarItem stars @ rest)
                 (full_backfill fuel h st (Suc page)))"

text \<open>
  The remote answers the pages from \<open>page\<close> on with the lists of \<open>pages\<close>: every page but
  the last is full, and the last is not.
\<close>

fun serves :: "host \<Rightarrow> settings \<Rightarrow> nat \<Rightarrow> StarredRepo list list \<Rightarrow> bool" where
  "serves h st page [] = False"
| "serves h st page [p] =
     (requestStars h (starredParams st page) = Inr p \<and> length p \<noteq> perPage)"
| "serves h st page (p # ps) =
     (requestStars h (starredParams st page) = Inr p \<and> length p = perPage
      \<and> serves h st (Suc page) ps)"

text \<open>Each page requested and every item of it materialized, page after page.\<close>

fun pages_view :: "nat \<Rightarrow> StarredRepo list list \<Rightarrow> fetched list" where
  "pages_view page [] = []"
| "pages_view page (p # ps) = Page page # map StarItem p @ pages_view (Suc page) ps"

text \<open>
  The number of segments of the path that the directory loop has built: a path with
  \<open>k\<close> segments has \<open>k - 1\<close> slashes.
\<close>

definition segments_so_far :: "string \<Rightarrow> nat" where
  "segments_so_far cur = (if cur = '''' then 0 else Suc (count_list cur slash))"


text \<open>
  The materialization of a starred repository raises an error. Every call of
  \<open>createNoteForRepo\<close> that may throw is inside its \<open>try\<close> block.
\<close>

definition repo_note_fails :: "host \<Rightarrow> StarredRepo \<Rightarrow> world \<Rightarrow> bool" where
  "repo_note_fails h repo w =
     (let fileName = fileNameForRepo (settings w) repo
      in isl (fst (createNoteForRepo_try h repo fileName (adapter_exists w fileName) w)))"

text \<open>
  \<open>createNoteForPR\<close> raises an error before its \<open>try\<close> block: \<open>ensureDirectoryExists\<close>
  throws.
\<close>

definition pr_directory_fails :: "host \<Rightarrow> PullRequest \<Rightarrow> world \<Rightarrow> bool" where
  "pr_directory_fails h pr w = isl (fst (ensureDirectoryExists h (repoDir (settings w) pr) w))"

text \<open>
  The materialization of a pull request raises an error: \<open>ensureDirectoryExists\<close> throws,
  or the directory is there or has been made and the \<open>try\<close> block throws.
\<close>

definition pr_note_fails :: "host \<Rightarrow> PullRequest \<Rightarrow> world \<Rightarrow> bool" where
  "pr_note_fails h pr w =
     (let fileName = fileNameForPR (settings w) pr
      in case ensureDirectoryExists h (repoDir (settings w) pr) w of
           (Inl e, w0) \<Rightarrow> True
         | (Inr u, w0) \<Rightarrow>
             isl (fst (createNoteForPR_try h pr fileName (adapter_exists w0 fileName) w0)))"

text \<open>A file is at the path.\<close>

definition is_file :: "world \<Rightarrow> string \<Rightarrow> bool" where
  "is_file w p = (case vault w p of Some (File n) \<Rightarrow> True | _ \<Rightarrow> False)"

text \<open>A tag all of whose characters are of the class \<open>[a-z0-9/_-]\<close>.\<close>

definition normalized :: "string \<Rightarrow> bool" where
  "normalized t = list_all (\<lambda>c. c \<in> set tag_chars) t"

text \<open>A character that lower-casing and the replacement of white space bring into the class.\<close>

definition plain_char :: "char \<Rightarrow> bool" where
  "plain_char c = (c \<in> set tag_chars \<or> c \<in> set upper_letters \<or> is_space c)"

section \<open>Example inputs\<close>

definition alice_settings :: settings where
  "alice_settings = DEFAULT_SETTINGS\<lparr>username := ''alice'', targetDirectory := ''gh''\<rparr>"

definition demo_repo :: StarredRepo where
  "demo_repo =
     \<lparr>name = ''demo'', full_name = ''bob/demo'', html_url = ''https://github.com/bob/demo'',
      description = '''', created_at = ''2024-01-02T03:04:05Z'',
      updated_at = ''2024-02-03T04:05:06Z'', language = ''C++'', stargazers_count = 12,
      topics = [''Vim Script''],
      owner = \<lparr>login = ''bob'', avatar_url = ''https://avatars.githubusercontent.com/u/1''\<rparr>\<rparr>"

definition demo_pr :: PullRequest where
  "demo_pr =
     \<lparr>id_pr = 1001, number = 7, title = ''Fix bug'',
      html_url_pr = ''https://github.com/bob/demo/pull/7'', state = ''open'',
      created_at_pr = ''2024-03-01T00:00:00Z'', updated_at_pr = ''2024-03-02T00:00:00Z'',
      closed_at = None, merged_at = None, draft = False, pull_request = None,
      repository_url = ''https://api.github.com/repos/bob/demo'',
      labels = [''type: bug'']\<rparr>"

text \<open>
  A host that answers page 1 with one item and every other page with none, renders a
  template to itself and never throws.
\<close>

definition quiet_host :: host where
  "quiet_host =
     \<lparr>requestStars = (\<lambda>r. if req_page r = 1 then Inr [demo_repo] else Inr []),
      requestPRs = (\<lambda>r. if req_page r = 1 then Inr [demo_pr] else Inr []),
      handlebarsStar = (\<lambda>t r. Inr t),
      handlebarsPR = (\<lambda>t p. Inr t),
      noteText = body,
      faults = (\<lambda>c. None),
      nowISO = ''2024-05-06T07:08:09.000Z'',
      nowLocale = ''5/6/2024, 7:08:09 AM'',
      todayYMD = ''2024-05-06'',
      formatYMD = take 10\<rparr>"

definition empty_world :: world where
  "empty_world = \<lparr>settings = alice_settings, vault = Map.empty, log = []\<rparr>"

text \<open>A vault in which a folder has the path of the note of \<open>demo_repo\<close>.\<close>

definition folder_world :: world where
  "folder_world =
     \<lparr>settings = alice_settings, vault = [''gh'' \<mapsto> Folder, ''gh/bob-demo.md'' \<mapsto> Folder], log = []\<rparr>"

definition unconfigured_world :: world where
  "unconfigured_world = \<lparr>settings = DEFAULT_SETTINGS, vault = Map.empty, log = []\<rparr>"

text \<open>A host whose vault refuses to create a file.\<close>

definition readonly_host :: host where
  "readonly_host =
     quiet_host\<lparr>faults := (\<lambda>c. case c of VaultCreate p \<Rightarrow> Some (Error ''EACCES'') | _ \<Rightarrow> None)\<rparr>"

text \<open>A vault in which the note of \<open>demo_repo\<close> exists and has a body written by hand.\<close>

definition edited_note :: note_file where
  "edited_note = \<lparr>frontmatter = [''stars'' \<mapsto> YNum 3], body = ''# demo'' @ [newline] @ ''my notes''\<rparr>"

definition edited_world :: world where
  "edited_world =
     \<lparr>settings = alice_settings,
      vault = [''gh'' \<mapsto> Folder, ''gh/bob-demo.md'' \<mapsto> File edited_note],
      log = []\<rparr>"

text \<open>A host without a network: every request throws.\<close>

definition offline_host :: host where
  "offline_host =
     quiet_host\<lparr>requestStars := (\<lambda>r. Inl (Error ''net::ERR_INTERNET_DISCONNECTED'')),
                requestPRs := (\<lambda>r. Inl (Error ''net::ERR_INTERNET_DISCONNECTED''))\<rparr>"

text \<open>
  A host whose first page of stars holds three repositories, and a vault in which the
  second of them has a note already, with a watermark from an earlier run.
\<close>

definition three_stars_host :: host where
  "three_stars_host =
     quiet_host\<lparr>requestStars :=
       (\<lambda>r. if req_page r = 1
            then Inr [demo_repo\<lparr>full_name := ''bob/new''\<rparr>, demo_repo,
                      demo_repo\<lparr>full_name := ''bob/old''\<rparr>]
            else Inr [])\<rparr>"

definition synced_world :: world where
  "synced_world =
     \<lparr>settings = alice_settings\<lparr>lastFetchDate := ''2024-04-01T00:00:00.000Z'',
                                 lastPRFetchDate := ''2024-04-01T00:00:00.000Z''\<rparr>,
      vault = [''gh'' \<mapsto> Folder, ''gh/bob-demo.md'' \<mapsto> File edited_note,
               ''gh/bob'' \<mapsto> Folder, ''gh/bob/demo'' \<mapsto> Folder,
               ''gh/bob/demo/7_Fix_bug.md'' \<mapsto> File edited_note],
      log = []\<rparr>"

text \<open>A host whose listing of stars has a full first page and one more repository.\<close>

definition two_page_host :: host where
  "two_page_host =
     quiet_host\<lparr>requestStars :=
       (\<lambda>r. if req_page r = 1 then Inr (replicate 100 demo_repo)
            else if req_page r = 2 then Inr [demo_repo\<lparr>full_name := ''bob/last''\<rparr>]
            else Inr [])\<rparr>"

text \<open>The settings of \<open>synced_world\<close> before the first fetch of stars, with an empty vault.\<close>

definition fresh_world :: world where
  "fresh_world =
     \<lparr>settings = alice_settings\<lparr>lastPRFetchDate := ''2024-04-01T00:00:00.000Z''\<rparr>,
      vault = Map.empty, log = []\<rparr>"

text \<open>
  A host that lists two pull requests of two owners and cannot make the folder of the
  first owner.
\<close>

definition other_pr :: PullRequest where
  "other_pr =
     demo_pr\<lparr>id_pr := 1002, number := 8, title := ''Add docs'',
             html_url_pr := ''https://github.com/carol/app/pull/8'',
             repository_url := ''https://api.github.com/repos/carol/app'', labels := []\<rparr>"

definition nofolder_host :: host where
  "nofolder_host =
     quiet_host\<lparr>requestPRs := (\<lambda>r. if req_page r = 1 then Inr [demo_pr, other_pr] else Inr []),
                faults := (\<lambda>c. if c = CreateFolder ''gh/bob'' then Some (Error ''EACCES'') else None)\<rparr>"

text \<open>The world that the run of \<open>fetchPullRequests\<close> with this host leaves.\<close>

definition aborted_pr_run :: world where
  "aborted_pr_run =
     (case fetchPullRequests 1 nofolder_host empty_world of
        None \<Rightarrow> empty_world
      | Some w \<Rightarrow> w)"

text \<open>
  The listing of \<open>three_stars_host\<close> with a vault that refuses to create a file, and a
  vault without notes whose watermark is set.
\<close>

definition readonly_three_host :: host where
  "readonly_three_host =
     three_stars_host\<lparr>faults :=
       (\<lambda>c. case c of VaultCreate p \<Rightarrow> Some (Error ''EACCES'') | _ \<Rightarrow> None)\<rparr>"

definition watermarked_world :: world where
  "watermarked_world =
     \<lparr>settings = alice_settings\<lparr>lastFetchDate := ''2024-04-01T00:00:00.000Z''\<rparr>,
      vault = [''gh'' \<mapsto> Folder], log = []\<rparr>"

text \<open>
  The world after a run in which no file could be created, and the worlds after a second
  run on it: with a vault that works again, and with the same vault.
\<close>

definition after_failed_run :: world where
  "after_failed_run =
     (case fetchStars 1 readonly_three_host watermarked_world of
        None \<Rightarrow> watermarked_world
      | Some w \<Rightarrow> w)"

definition after_retry_run :: world where
  "after_retry_run =
     (case fetchStars 1 three_stars_host after_failed_run of
        None \<Rightarrow> after_failed_run
      | Some w \<Rightarrow> w)"

definition after_failed_again :: world where
  "after_failed_again =
     (case fetchStars 1 readonly_three_host after_failed_run of
        None \<Rightarrow> after_failed_run
      | Some w \<Rightarrow> w)"

section \<open>Basic facts\<close>

lemma settings_emit [simp]: "settings (emit e w) = settings w"
  and vault_emit [simp]: "vault (emit e w) = vault w"
  and log_emit [simp]: "log (emit e w) = log w @ [e]"
  by (simp_all add: emit_def)

lemma adapter_exists_emit [simp]: "adapter_exists (emit e w) p = adapter_exists w p"
  by (simp add: adapter_exists_def)

subsection \<open>Host calls\<close>

lemma createFolder_cases:
  assumes "createFolder h p w = (r, w')"
  shows "settings w' = settings w \<and> log w' = log w \<and>
         ((\<exists>e. r = Inl e \<and> w' = w) \<or>
          (r = Inr () \<and> vault w p = None \<and> vault w' = (vault w)(p \<mapsto> Folder)))"
  using assms
  by (auto simp: createFolder_def adapter_exists_def split: option.splits if_splits)

lemma vault_create_cases:
  assumes "vault_create h p c w = (r, w')"
  shows "settings w' = settings w \<and> log w' = log w \<and>
         ((\<exists>e. r = Inl e \<and> w' = w) \<or>
          (r = Inr () \<and> vault w p = None \<and>
           vault w' = (vault w)(p \<mapsto> File \<lparr>frontmatter = Map.empty, body = c\<rparr>)))"
  using assms
  by (auto simp: vault_create_def adapter_exists_def split: option.splits if_splits)

lemma processFrontMatter_cases:
  assumes "processFrontMatter h p f w = (r, w')"
  shows "settings w' = settings w \<and> log w' = log w \<and>
         ((\<exists>e. r = Inl e \<and> w' = w) \<or>
          (r = Inr () \<and> (\<exists>n. vault w p = Some (File n) \<and>
             vault w' = (vault w)(p \<mapsto> File (n\<lparr>frontmatter := f (frontmatter n)\<rparr>)))))"
  using assms
  by (auto simp: processFrontMatter_def split: option.splits entry.splits)

lemma readTemplate_cases:
  assumes "readTemplate h forceDefault templatePath defaultTemplate w = (r, w')"
  shows "settings w' = settings w \<and> vault w' = vault w \<and>
         (\<exists>evs. log w' = log w @ evs \<and> list_all (\<lambda>e. \<not> is_fetch e) evs)"
  using assms
  by (auto simp: readTemplate_def split: if_splits)

lemma renderTemplate_cases:
  assumes "renderTemplate h compile forceDefault templatePath defaultTemplate obj w = (r, w')"
  shows "settings w' = settings w \<and> vault w' = vault w \<and>
         (\<exists>evs. log w' = log w @ evs \<and> list_all (\<lambda>e. \<not> is_fetch e) evs)"
  using assms readTemplate_cases [of h forceDefault templatePath defaultTemplate w]
  by (auto simp: renderTemplate_def split: prod.splits sum.splits)
subsection \<open>The materializer of a starred repository\<close>

lemma createNoteForRepo_file_cases:
  assumes "createNoteForRepo_file h repo P (adapter_exists w P) w = (r, w')"
  shows "settings w' = settings w
       \<and> (\<exists>evs. log w' = log w @ evs \<and> list_all (\<lambda>e. \<not> is_fetch e) evs)
       \<and> ((\<exists>e. r = Inl e \<and> vault w' = vault w \<and> (\<forall>n. vault w P \<noteq> Some (File n)))
          \<or> (r = Inr () \<and> vault w' = vault w \<and> (\<exists>n. vault w P = Some (File n)))
          \<or> (r = Inr () \<and> vault w P = None
              \<and> (\<exists>c. vault w' = (vault w)(P \<mapsto> File \<lparr>frontmatter = Map.empty, body = c\<rparr>))))"
proof (cases "adapter_exists w P")
  case True
  with assms show ?thesis
    by (auto simp: createNoteForRepo_file_def adapter_exists_def split: option.splits entry.splits)
next
  case False
  then have none: "vault w P = None" by (simp add: adapter_exists_def)
  obtain r1 w1 where rt: "renderTemplate h (handlebarsStar h) (useDefaultTemplateStar (settings w))
                (templatePathStar (settings w)) defaultTemplateStar repo w = (r1, w1)"
    by (cases "renderTemplate h (handlebarsStar h) (useDefaultTemplateStar (settings w))
                (templatePathStar (settings w)) defaultTemplateStar repo w") blast
  note a = renderTemplate_cases [OF rt]
  show ?thesis
  proof (cases r1)
    case (Inl e)
    with assms False rt a none show ?thesis
      by (auto simp: createNoteForRepo_file_def)
  next
    case (Inr c)
    with assms False rt have vc: "vault_create h P c w1 = (r, w')"
      by (simp add: createNoteForRepo_file_def)
    from vault_create_cases [OF vc] a none show ?thesis
      by auto
  qed
qed

lemma frontmatter_update_ex [simp]:
  "\<exists>fm. (n :: note_file) = n\<lparr>frontmatter := fm\<rparr>"
  by (rule exI [of _ "frontmatter n"]) simp

lemma createNoteForRepo_try_cases:
  assumes "createNoteForRepo_try h repo P (adapter_exists w P) w = (r, w')"
  shows "settings w' = settings w
       \<and> (\<exists>evs. log w' = log w @ evs \<and> list_all (\<lambda>e. \<not> is_fetch e) evs)
       \<and> (\<forall>q. q \<noteq> P \<longrightarrow> vault w' q = vault w q)
       \<and> (\<forall>n. vault w P = Some (File n) \<longrightarrow>
             (\<exists>fm. vault w' P = Some (File (n\<lparr>frontmatter := fm\<rparr>))))
       \<and> (vault w P = Some Folder \<longrightarrow> vault w' P = Some Folder \<and> isl r)
       \<and> (vault w P = None \<longrightarrow>
             (vault w' P = None \<and> isl r)
             \<or> (\<exists>fm c. vault w' P = Some (File \<lparr>frontmatter = fm, body = c\<rparr>)))
       \<and> (\<not> useDefaultTemplateStar (settings w) \<longrightarrow> vault w P \<noteq> None \<longrightarrow> vault w' = vault w)"
proof -
  obtain r0 w0 where f: "createNoteForRepo_file h repo P (adapter_exists w P) w = (r0, w0)"
    by (cases "createNoteForRepo_file h repo P (adapter_exists w P) w") blast
  note a = createNoteForRepo_file_cases [OF f]
  show ?thesis
  proof (cases r0)
    case (Inl e)
    with assms f have "r = Inl e" "w' = w0"
      by (simp_all add: createNoteForRepo_try_def)
    with a Inl show ?thesis
      by (cases "vault w P") (auto split: entry.splits)
  next
    case (Inr u)
    show ?thesis
    proof (cases "useDefaultTemplateStar (settings w0)")
      case False
      with assms f Inr have "r = Inr ()" "w' = w0"
        by (simp_all add: createNoteForRepo_try_def)
      with a Inr show ?thesis
        by auto
    next
      case True
      with assms f Inr have p: "processFrontMatter h P (starFrontMatter h repo) w0 = (r, w')"
        by (simp add: createNoteForRepo_try_def)
      from processFrontMatter_cases [OF p] a Inr True show ?thesis
        by (elim conjE disjE exE) auto
    qed
  qed
qed
lemma entry_option_cases:
  "x = None \<or> x = Some Folder \<or> (\<exists>n. x = Some (File n))"
  by (metis entry.exhaust option.exhaust)

lemma createNoteForRepo_cases:
  assumes "createNoteForRepo h repo w = (b, w')"
  shows "b = (vault w (fileNameForRepo (settings w) repo) = None)
       \<and> settings w' = settings w
       \<and> (\<exists>evs. log w' = log w @ evs @ [RepoNote repo b]
                \<and> list_all (\<lambda>e. \<not> is_fetch e) evs
                \<and> (list_all (\<lambda>e. \<not> is_error e) evs \<longrightarrow>
                     vault w' (fileNameForRepo (settings w) repo) \<noteq> None))
       \<and> (\<forall>q. q \<noteq> fileNameForRepo (settings w) repo \<longrightarrow> vault w' q = vault w q)
       \<and> (\<forall>n. vault w (fileNameForRepo (settings w) repo) = Some (File n) \<longrightarrow>
             (\<exists>fm. vault w' (fileNameForRepo (settings w) repo)
                      = Some (File (n\<lparr>frontmatter := fm\<rparr>))))
       \<and> (vault w (fileNameForRepo (settings w) repo) = Some Folder \<longrightarrow>
             vault w' (fileNameForRepo (settings w) repo) = Some Folder)
       \<and> (vault w (fileNameForRepo (settings w) repo) = None \<longrightarrow>
             vault w' (fileNameForRepo (settings w) repo) = None
             \<or> (\<exists>fm c. vault w' (fileNameForRepo (settings w) repo)
                          = Some (File \<lparr>frontmatter = fm, body = c\<rparr>)))"
proof -
  define P where "P = fileNameForRepo (settings w) repo"
  obtain r w1 where t: "createNoteForRepo_try h repo P (adapter_exists w P) w = (r, w1)"
    by (cases "createNoteForRepo_try h repo P (adapter_exists w P) w") blast
  note a = createNoteForRepo_try_cases [OF t]
  define caught where
    "caught = (case r of
                 Inl e \<Rightarrow> [ConsoleError (''Error creating note for '' @ name repo @ '':'') e]
               | Inr u \<Rightarrow> [])"
  from assms t have b: "b = (vault w P = None)"
    and v: "vault w' = vault w1"
    and s: "settings w' = settings w1"
    and l: "log w' = log w1 @ caught @ [RepoNote repo b]"
    by (auto simp: createNoteForRepo_def P_def Let_def adapter_exists_def caught_def
             split: sum.splits)
  have cf: "list_all (\<lambda>e. \<not> is_fetch e) caught"
    by (simp add: caught_def split: sum.splits)
  have ce: "r = Inr ()" if "list_all (\<lambda>e. \<not> is_error e) caught"
    using that by (cases r) (simp_all add: caught_def)
  from a obtain evs where evs: "log w1 = log w @ evs" "list_all (\<lambda>e. \<not> is_fetch e) evs"
    by blast
  have c2: "settings w' = settings w"
    using a s by simp
  have "vault w' P \<noteq> None" if "list_all (\<lambda>e. \<not> is_error e) (evs @ caught)"
  proof -
    from that ce have "\<not> isl r" by simp
    with a v entry_option_cases [of "vault w P"] show ?thesis
      by (elim disjE exE) auto
  qed
  moreover have "log w' = log w @ (evs @ caught) @ [RepoNote repo b]"
    using l evs by simp
  moreover have "list_all (\<lambda>e. \<not> is_fetch e) (evs @ caught)"
    using cf evs by simp
  ultimately have c3: "\<exists>evs. log w' = log w @ evs @ [RepoNote repo b]
                \<and> list_all (\<lambda>e. \<not> is_fetch e) evs
                \<and> (list_all (\<lambda>e. \<not> is_error e) evs \<longrightarrow> vault w' P \<noteq> None)"
    by blast
  have c4: "\<forall>q. q \<noteq> P \<longrightarrow> vault w' q = vault w q"
    using a v by simp
  have c5: "\<forall>n. vault w P = Some (File n) \<longrightarrow>
              (\<exists>fm. vault w' P = Some (File (n\<lparr>frontmatter := fm\<rparr>)))"
    using a v by simp
  have c6: "vault w P = Some Folder \<longrightarrow> vault w' P = Some Folder"
    using a v by simp
  have c7: "vault w P = None \<longrightarrow>
              vault w' P = None \<or> (\<exists>fm c. vault w' P = Some (File \<lparr>frontmatter = fm, body = c\<rparr>))"
    using a v by auto
  from b c2 c3 c4 c5 c6 c7 show ?thesis
    unfolding P_def [symmetric] by blast
qed

subsection \<open>Growing worlds\<close>

lemma grows_refl [simp]: "grows w w"
  by (simp add: grows_def)

lemma grows_trans: "grows a b \<Longrightarrow> grows b c \<Longrightarrow> grows a c"
  by (auto simp: grows_def)

lemma grows_emit [simp]: "grows w (emit e w)"
  by (simp add: grows_def)

lemma grows_emit_right: "grows w w' \<Longrightarrow> grows w (emit e w')"
  by (auto simp: grows_def)

lemma createNoteForRepo_grows:
  assumes "createNoteForRepo h repo w = (b, w')"
  shows "grows w w'"
proof -
  note a = createNoteForRepo_cases [OF assms]
  have "vault w' p \<noteq> None" if "vault w p \<noteq> None" for p
  proof (cases "p = fileNameForRepo (settings w) repo")
    case False
    with a that show ?thesis by simp
  next
    case True
    from that obtain x where x: "vault w p = Some x" by blast
    show ?thesis
    proof (cases x)
      case (File n)
      with a x True obtain fm where "vault w' p = Some (File (n\<lparr>frontmatter := fm\<rparr>))"
        by blast
      then show ?thesis by simp
    next
      case Folder
      with a x True show ?thesis by simp
    qed
  qed
  moreover from a obtain evs where "log w' = log w @ evs @ [RepoNote repo b]"
    by blast
  ultimately show ?thesis
    using a unfolding grows_def by blast
qed

lemma fetchStars_items_grows:
  "fetchStars_items h ff items n w = (c, n', w') \<Longrightarrow> grows w w'"
proof (induction items arbitrary: n w)
  case Nil
  then show ?case by simp
next
  case (Cons repo rest)
  obtain b w1 where c: "createNoteForRepo h repo w = (b, w1)"
    by (cases "createNoteForRepo h repo w") blast
  note g = createNoteForRepo_grows [OF c]
  show ?case
  proof (cases "\<not> ff \<and> \<not> b")
    case True
    with Cons.prems c g show ?thesis by auto
  next
    case False
    with Cons.prems c have "fetchStars_items h ff rest (Suc n) w1 = (c, n', w')"
      by auto
    from Cons.IH [OF this] g show ?thesis
      by (rule grows_trans [rotated])
  qed
qed

lemma getStarredRepos_cases:
  assumes "getStarredRepos h page w = (r, w')"
  shows "w' = emit (HttpGet (starredParams (settings w) page)) w
       \<and> (case requestStars h (starredParams (settings w) page) of
            Inl e \<Rightarrow> r = Inl e
          | Inr stars \<Rightarrow> r = Inr (stars, length stars = perPage))"
  using assms by (auto simp: getStarredRepos_def Let_def split: sum.splits)

lemma fetchStars_pages_grows:
  "fetchStars_pages fuel h ff page n w = Some (r, w') \<Longrightarrow> grows w w'"
proof (induction fuel arbitrary: page n w)
  case 0
  then show ?case by simp
next
  case (Suc fuel)
  obtain r1 w1 where g: "getStarredRepos h page w = (r1, w1)"
    by (cases "getStarredRepos h page w") blast
  from getStarredRepos_cases [OF g] have g1: "grows w w1" by simp
  show ?case
  proof (cases r1)
    case (Inl e)
    with Suc.prems g g1 show ?thesis by simp
  next
    case (Inr sh)
    obtain stars hasMore where sh: "sh = (stars, hasMore)" by (cases sh)
    obtain c n1 w2 where i: "fetchStars_items h ff stars n w1 = (c, n1, w2)"
      by (cases "fetchStars_items h ff stars n w1") auto
    define w3 where "w3 = (if n1 \<noteq> 0
                         then emit (Notice (''Fetched '' @ show_nat n1 @ '' GitHub stars'')) w2
                         else w2)"
    have g3: "grows w w3"
      using g1 fetchStars_items_grows [OF i] unfolding w3_def
      by (auto intro: grows_trans grows_emit_right)
    show ?thesis
    proof (cases "hasMore \<and> (ff \<or> c)")
      case False
      with Suc.prems g Inr sh i have "w' = w3"
        by (auto simp: w3_def Let_def split: if_splits)
      with g3 show ?thesis by simp
    next
      case True
      with Suc.prems g Inr sh i
      have "fetchStars_pages fuel h ff (Suc page) n1 w3 = Some (r, w')"
        by (auto simp: w3_def Let_def split: if_splits)
      from Suc.IH [OF this] g3 show ?thesis
        by (rule grows_trans [rotated])
    qed
  qed
qed
subsection \<open>Directories\<close>

lemma ensureDirs_cases:
  "ensureDirs h cur ds w = (r, w') \<Longrightarrow>
     settings w' = settings w \<and> log w' = log w
     \<and> (\<forall>p. vault w p \<noteq> None \<longrightarrow> vault w' p = vault w p)
     \<and> (\<forall>p. vault w p = None \<longrightarrow> vault w' p = None \<or> vault w' p = Some Folder)"
proof (induction ds arbitrary: cur w)
  case Nil
  then show ?case by simp
next
  case (Cons d ds)
  define cur1 where "cur1 = (if cur \<noteq> '''' then cur @ ''/'' @ d else d)"
  show ?case
  proof (cases "adapter_exists w cur1")
    case True
    with Cons.prems have "ensureDirs h cur1 ds w = (r, w')"
      by (simp add: cur1_def Let_def)
    from Cons.IH [OF this] show ?thesis .
  next
    case False
    obtain r1 w1 where c: "createFolder h cur1 w = (r1, w1)"
      by (cases "createFolder h cur1 w") blast
    note a = createFolder_cases [OF c]
    show ?thesis
    proof (cases r1)
      case (Inl e)
      with Cons.prems False c have "w' = w1"
        by (simp add: cur1_def Let_def)
      with a Inl show ?thesis by auto
    next
      case (Inr u)
      with Cons.prems False c have "ensureDirs h cur1 ds w1 = (r, w')"
        by (simp add: cur1_def Let_def)
      note b = Cons.IH [OF this]
      from a Inr have v1: "vault w1 = (vault w)(cur1 \<mapsto> Folder)" and n: "vault w cur1 = None"
        by auto
      have "vault w' p = vault w p" if "vault w p \<noteq> None" for p
      proof -
        from that n have "p \<noteq> cur1" by auto
        with v1 that have "vault w1 p = vault w p" "vault w1 p \<noteq> None" by auto
        with b show ?thesis by simp
      qed
      moreover have "vault w' p = None \<or> vault w' p = Some Folder" if "vault w p = None" for p
      proof (cases "p = cur1")
        case True
        with v1 have "vault w1 p = Some Folder" by simp
        with b have "vault w' p = Some Folder" by (metis option.distinct(1))
        then show ?thesis by simp
      next
        case False
        with v1 that have "vault w1 p = None" by simp
        with b show ?thesis by simp
      qed
      ultimately show ?thesis using a b by simp
    qed
  qed
qed

lemma ensureDirs_grows: "ensureDirs h cur ds w = (r, w') \<Longrightarrow> grows w w'"
  by (drule ensureDirs_cases) (auto simp: grows_def)

lemma ensureDirs_files: "ensureDirs h cur ds w = (r, w') \<Longrightarrow> files_of w' = files_of w"
proof -
  assume "ensureDirs h cur ds w = (r, w')"
  note a = ensureDirs_cases [OF this]
  have "(\<exists>n. vault w' p = Some (File n)) = (\<exists>n. vault w p = Some (File n))" for p
  proof (cases "vault w p")
    case None
    with a have "vault w' p = None \<or> vault w' p = Some Folder" by simp
    with None show ?thesis by auto
  next
    case (Some x)
    with a have "vault w' p = vault w p" by simp
    then show ?thesis by simp
  qed
  then show ?thesis by (simp add: files_of_def)
qed

text \<open>Once the directories are there, the loop finds them and changes nothing.\<close>

lemma ensureDirs_again:
  "ensureDirs h cur ds w = (Inr (), w') \<Longrightarrow> (\<forall>p. vault w' p \<noteq> None \<longrightarrow> vault w2 p \<noteq> None)
     \<Longrightarrow> ensureDirs h cur ds w2 = (Inr (), w2)"
proof (induction ds arbitrary: cur w)
  case Nil
  then show ?case by simp
next
  case (Cons d ds)
  define cur1 where "cur1 = (if cur \<noteq> '''' then cur @ ''/'' @ d else d)"
  show ?case
  proof (cases "adapter_exists w cur1")
    case True
    with Cons.prems have rec: "ensureDirs h cur1 ds w = (Inr (), w')"
      by (simp add: cur1_def Let_def)
    from ensureDirs_cases [OF rec] True have "vault w' cur1 \<noteq> None"
      by (simp add: adapter_exists_def)
    with Cons.prems have "adapter_exists w2 cur1"
      by (simp add: adapter_exists_def)
    with Cons.IH [OF rec Cons.prems(2)] show ?thesis
      by (simp add: cur1_def Let_def)
  next
    case False
    obtain r1 w1 where c: "createFolder h cur1 w = (r1, w1)"
      by (cases "createFolder h cur1 w") blast
    note a = createFolder_cases [OF c]
    from Cons.prems False c have r1: "r1 = Inr ()"
      by (cases r1) (auto simp: cur1_def Let_def)
    with Cons.prems False c have rec: "ensureDirs h cur1 ds w1 = (Inr (), w')"
      by (simp add: cur1_def Let_def)
    from a r1 have "vault w1 cur1 \<noteq> None" by auto
    with ensureDirs_cases [OF rec] have "vault w' cur1 \<noteq> None" by simp
    with Cons.prems have "adapter_exists w2 cur1"
      by (simp add: adapter_exists_def)
    with Cons.IH [OF rec Cons.prems(2)] show ?thesis
      by (simp add: cur1_def Let_def)
  qed
qed

text \<open>The loop only makes folders whose paths have fewer slashes than there are segments.\<close>

lemma ensureDirs_slashes:
  "ensureDirs h cur ds w = (r, w') \<Longrightarrow> \<forall>d \<in> set ds. d \<noteq> '''' \<and> slash \<notin> set d
     \<Longrightarrow> vault w' p \<noteq> vault w p
     \<Longrightarrow> count_list p slash < segments_so_far cur + length ds"
proof (induction ds arbitrary: cur w)
  case Nil
  then show ?case by simp
next
  case (Cons d ds)
  define cur1 where "cur1 = (if cur \<noteq> '''' then cur @ ''/'' @ d else d)"
  from Cons.prems(2) have d: "d \<noteq> ''''" "count_list d slash = 0"
    by (auto simp: count_list_0_iff)
  then have c1: "count_list cur1 slash = segments_so_far cur"
    and s1: "segments_so_far cur1 = Suc (segments_so_far cur)"
    by (auto simp: cur1_def segments_so_far_def slash_def)
  from Cons.prems(2) have ds: "\<forall>d \<in> set ds. d \<noteq> '''' \<and> slash \<notin> set d" by simp
  show ?case
  proof (cases "adapter_exists w cur1")
    case True
    with Cons.prems have "ensureDirs h cur1 ds w = (r, w')"
      by (simp add: cur1_def Let_def)
    from Cons.IH [OF this ds Cons.prems(3)] s1 show ?thesis by simp
  next
    case False
    obtain r1 w1 where c: "createFolder h cur1 w = (r1, w1)"
      by (cases "createFolder h cur1 w") blast
    note a = createFolder_cases [OF c]
    show ?thesis
    proof (cases r1)
      case (Inl e)
      with Cons.prems False c have "w' = w1"
        by (simp add: cur1_def Let_def)
      with a Inl Cons.prems(3) show ?thesis by auto
    next
      case (Inr u)
      with Cons.prems False c have rec: "ensureDirs h cur1 ds w1 = (r, w')"
        by (simp add: cur1_def Let_def)
      from a Inr have v1: "vault w1 = (vault w)(cur1 \<mapsto> Folder)" by auto
      show ?thesis
      proof (cases "vault w' p = vault w1 p")
        case False
        from Cons.IH [OF rec ds False] s1 show ?thesis by simp
      next
        case True
        with Cons.prems(3) v1 have "p = cur1" by (auto split: if_splits)
        with c1 show ?thesis by simp
      qed
    qed
  qed
qed

lemma split_on_length: "length (split_on c s) = Suc (count_list s c)"
  by (induction s) (auto split: list.splits)

lemma split_on_segments: "seg \<in> set (split_on c s) \<Longrightarrow> c \<notin> set seg"
  by (induction s arbitrary: seg) (auto split: list.splits if_splits)

lemma path_segments_length: "length (path_segments d) \<le> Suc (count_list d slash)"
proof -
  have "length (path_segments d) \<le> length (split_on slash d)"
    unfolding path_segments_def by (rule length_filter_le)
  then show ?thesis by (simp add: split_on_length)
qed

lemma path_segments_clean: "\<forall>s \<in> set (path_segments d). s \<noteq> '''' \<and> slash \<notin> set s"
  by (auto simp: path_segments_def blank_def dest: split_on_segments)

text \<open>A path below a directory is not one of the folders made for the directory.\<close>

lemma ensureDirectoryExists_below:
  assumes "ensureDirectoryExists h d w = (r, w')"
  shows "vault w' (d @ ''/'' @ rest) = vault w (d @ ''/'' @ rest)"
proof (rule ccontr)
  assume "vault w' (d @ ''/'' @ rest) \<noteq> vault w (d @ ''/'' @ rest)"
  with ensureDirs_slashes [OF assms [unfolded ensureDirectoryExists_def] path_segments_clean]
  have "count_list (d @ ''/'' @ rest) slash < segments_so_far '''' + length (path_segments d)"
    by blast
  also have "\<dots> \<le> Suc (count_list d slash)"
    using path_segments_length [of d] by (simp add: segments_so_far_def)
  finally show False by (simp add: slash_def)
qed
subsection \<open>The materializer of a pull request\<close>

lemma createNoteForPR_file_cases:
  assumes "createNoteForPR_file h pr P (adapter_exists w P) w = (r, w')"
  shows "settings w' = settings w
       \<and> (\<exists>evs. log w' = log w @ evs \<and> list_all (\<lambda>e. \<not> is_fetch e) evs)
       \<and> ((\<exists>e. r = Inl e \<and> vault w' = vault w \<and> (\<forall>n. vault w P \<noteq> Some (File n)))
          \<or> (r = Inr () \<and> vault w' = vault w \<and> (\<exists>n. vault w P = Some (File n)))
          \<or> (r = Inr () \<and> vault w P = None
              \<and> (\<exists>c. vault w' = (vault w)(P \<mapsto> File \<lparr>frontmatter = Map.empty, body = c\<rparr>))))"
proof (cases "adapter_exists w P")
  case True
  with assms show ?thesis
    by (auto simp: createNoteForPR_file_def adapter_exists_def split: option.splits entry.splits)
next
  case False
  then have none: "vault w P = None" by (simp add: adapter_exists_def)
  obtain r1 w1 where rt: "renderTemplate h (handlebarsPR h) (useDefaultTemplatePR (settings w))
                (templatePathPR (settings w)) defaultTemplatePR pr w = (r1, w1)"
    by (cases "renderTemplate h (handlebarsPR h) (useDefaultTemplatePR (settings w))
                (templatePathPR (settings w)) defaultTemplatePR pr w") blast
  note a = renderTemplate_cases [OF rt]
  show ?thesis
  proof (cases r1)
    case (Inl e)
    with assms False rt a none show ?thesis
      by (auto simp: createNoteForPR_file_def)
  next
    case (Inr c)
    with assms False rt have vc: "vault_create h P c w1 = (r, w')"
      by (simp add: createNoteForPR_file_def)
    from vault_create_cases [OF vc] a none show ?thesis
      by auto
  qed
qed

lemma createNoteForPR_try_cases:
  assumes "createNoteForPR_try h pr P (adapter_exists w P) w = (r, w')"
  shows "settings w' = settings w
       \<and> (\<exists>evs. log w' = log w @ evs \<and> list_all (\<lambda>e. \<not> is_fetch e) evs)
       \<and> (\<forall>q. q \<noteq> P \<longrightarrow> vault w' q = vault w q)
       \<and> (\<forall>n. vault w P = Some (File n) \<longrightarrow>
             (\<exists>fm. vault w' P = Some (File (n\<lparr>frontmatter := fm\<rparr>))))
       \<and> (vault w P = Some Folder \<longrightarrow> vault w' P = Some Folder \<and> isl r)
       \<and> (vault w P = None \<longrightarrow>
             (vault w' P = None \<and> isl r)
             \<or> (\<exists>fm c. vault w' P = Some (File \<lparr>frontmatter = fm, body = c\<rparr>)))
       \<and> (\<not> useDefaultTemplatePR (settings w) \<longrightarrow> vault w P \<noteq> None \<longrightarrow> vault w' = vault w)"
proof -
  obtain r0 w0 where f: "createNoteForPR_file h pr P (adapter_exists w P) w = (r0, w0)"
    by (cases "createNoteForPR_file h pr P (adapter_exists w P) w") blast
  note a = createNoteForPR_file_cases [OF f]
  show ?thesis
  proof (cases r0)
    case (Inl e)
    with assms f have "r = Inl e" "w' = w0"
      by (simp_all add: createNoteForPR_try_def)
    with a Inl show ?thesis
      by (cases "vault w P") (auto split: entry.splits)
  next
    case (Inr u)
    show ?thesis
    proof (cases "useDefaultTemplatePR (settings w0)")
      case False
      with assms f Inr have "r = Inr ()" "w' = w0"
        by (simp_all add: createNoteForPR_try_def)
      with a Inr show ?thesis
        by auto
    next
      case True
      with assms f Inr have p: "processFrontMatter h P (prFrontMatter h pr) w0 = (r, w')"
        by (simp add: createNoteForPR_try_def)
      from processFrontMatter_cases [OF p] a Inr True show ?thesis
        by (elim conjE disjE exE) auto
    qed
  qed
qed

lemma createNoteForPR_cases:
  assumes "createNoteForPR h pr w = (r, w')"
  shows "settings w' = settings w
       \<and> (\<forall>e. r = Inl e \<longrightarrow> log w' = log w \<and> files_of w' = files_of w)
       \<and> (\<forall>b. r = Inr b \<longrightarrow>
             b = (vault w (fileNameForPR (settings w) pr) = None)
             \<and> (\<exists>evs. log w' = log w @ evs @ [PRNote pr b]
                      \<and> list_all (\<lambda>e. \<not> is_fetch e) evs))
       \<and> (\<forall>p. vault w p \<noteq> None \<longrightarrow> vault w' p \<noteq> None)
       \<and> (\<forall>n. vault w (fileNameForPR (settings w) pr) = Some (File n) \<longrightarrow>
             (\<exists>fm. vault w' (fileNameForPR (settings w) pr)
                      = Some (File (n\<lparr>frontmatter := fm\<rparr>))))"
proof -
  define P where "P = fileNameForPR (settings w) pr"
  define D where "D = repoDir (settings w) pr"
  have PD: "P = D @ ''/'' @ (show_nat (number pr) @ ''_'' @ safePrTitle pr @ ''.md'')"
    by (simp add: P_def D_def fileNameForPR_def)
  obtain r0 w0 where d: "ensureDirectoryExists h D w = (r0, w0)"
    by (cases "ensureDirectoryExists h D w") blast
  note dc = ensureDirs_cases [OF d [unfolded ensureDirectoryExists_def]]
  note df = ensureDirs_files [OF d [unfolded ensureDirectoryExists_def]]
  have same: "vault w0 P = vault w P"
    unfolding PD by (rule ensureDirectoryExists_below [OF d])
  show ?thesis
  proof (cases r0)
    case (Inl e)
    with assms d have "r = Inl e" "w' = w0"
      by (simp_all add: createNoteForPR_def D_def Let_def)
    with dc df same show ?thesis
      unfolding P_def [symmetric] by auto
  next
    case (Inr u)
    obtain r1 w1 where t: "createNoteForPR_try h pr P (adapter_exists w0 P) w0 = (r1, w1)"
      by (cases "createNoteForPR_try h pr P (adapter_exists w0 P) w0") blast
    note a = createNoteForPR_try_cases [OF t]
    define caught where
      "caught = (case r1 of
                   Inl e \<Rightarrow> [ConsoleError (''Error creating note for PR #'' @ show_nat (number pr) @ '':'') e]
                 | Inr u \<Rightarrow> [])"
    from assms d Inr t have r: "r = Inr (vault w0 P = None)"
      and v: "vault w' = vault w1"
      and s: "settings w' = settings w1"
      and l: "log w' = log w1 @ caught @ [PRNote pr (vault w0 P = None)]"
      by (auto simp: createNoteForPR_def P_def D_def Let_def adapter_exists_def caught_def
               split: sum.splits)
    have cf: "list_all (\<lambda>e. \<not> is_fetch e) caught"
      by (simp add: caught_def split: sum.splits)
    from a obtain evs where evs: "log w1 = log w0 @ evs" "list_all (\<lambda>e. \<not> is_fetch e) evs"
      by blast
    have c1: "settings w' = settings w"
      using a s dc by simp
    have "log w' = log w @ (evs @ caught) @ [PRNote pr (vault w P = None)]"
      using l evs dc same by simp
    moreover have "list_all (\<lambda>e. \<not> is_fetch e) (evs @ caught)"
      using cf evs by simp
    ultimately have ex: "\<exists>evs. log w' = log w @ evs @ [PRNote pr (vault w P = None)]
                      \<and> list_all (\<lambda>e. \<not> is_fetch e) evs"
      by (intro exI [of _ "evs @ caught"] conjI)
    have c3: "\<forall>b. r = Inr b \<longrightarrow>
             b = (vault w P = None)
             \<and> (\<exists>evs. log w' = log w @ evs @ [PRNote pr b]
                      \<and> list_all (\<lambda>e. \<not> is_fetch e) evs)"
      using r same ex by simp
    have c4: "vault w' p \<noteq> None" if "vault w p \<noteq> None" for p
    proof -
      from that dc have p0: "vault w0 p \<noteq> None" by simp
      show ?thesis
      proof (cases "p = P")
        case False
        with a v p0 show ?thesis by simp
      next
        case True
        with a v p0 entry_option_cases [of "vault w0 P"] show ?thesis
          by (elim disjE exE) auto
      qed
    qed
    have c5: "\<forall>n. vault w P = Some (File n) \<longrightarrow>
                (\<exists>fm. vault w' P = Some (File (n\<lparr>frontmatter := fm\<rparr>)))"
      using a v same by simp
    from r c1 c3 c4 c5 show ?thesis
      unfolding P_def [symmetric] by blast
  qed
qed

lemma createNoteForPR_grows:
  assumes "createNoteForPR h pr w = (r, w')"
  shows "grows w w'"
proof -
  note a = createNoteForPR_cases [OF assms]
  have "\<exists>evs. log w' = log w @ evs"
    using a by (cases r) auto
  with a show ?thesis
    unfolding grows_def by blast
qed

lemma fetchPullRequests_items_grows:
  "fetchPullRequests_items h ff items n w = (r, w') \<Longrightarrow> grows w w'"
proof (induction items arbitrary: n w)
  case Nil
  then show ?case by simp
next
  case (Cons pr rest)
  obtain r1 w1 where c: "createNoteForPR h pr w = (r1, w1)"
    by (cases "createNoteForPR h pr w") blast
  note g = createNoteForPR_grows [OF c]
  show ?case
  proof (cases r1)
    case (Inl e)
    with Cons.prems c g show ?thesis by simp
  next
    case (Inr b)
    show ?thesis
    proof (cases "\<not> ff \<and> \<not> b")
      case True
      with Cons.prems c g Inr show ?thesis by auto
    next
      case False
      with Cons.prems c Inr have "fetchPullRequests_items h ff rest (Suc n) w1 = (r, w')"
        by auto
      from Cons.IH [OF this] g show ?thesis
        by (rule grows_trans [rotated])
    qed
  qed
qed

lemma getPullRequests_cases:
  assumes "getPullRequests h page w = (r, w')"
  shows "w' = emit (HttpGet (pullRequestsParams (settings w) page)) w
       \<and> (case requestPRs h (pullRequestsParams (settings w) page) of
            Inl e \<Rightarrow> r = Inl e
          | Inr prs \<Rightarrow> r = Inr (prs, length prs = perPage))"
  using assms by (auto simp: getPullRequests_def Let_def split: sum.splits)

lemma fetchPullRequests_pages_grows:
  "fetchPullRequests_pages fuel h ff page n w = Some (r, w') \<Longrightarrow> grows w w'"
proof (induction fuel arbitrary: page n w)
  case 0
  then show ?case by simp
next
  case (Suc fuel)
  obtain r1 w1 where g: "getPullRequests h page w = (r1, w1)"
    by (cases "getPullRequests h page w") blast
  from getPullRequests_cases [OF g] have g1: "grows w w1" by simp
  show ?case
  proof (cases r1)
    case (Inl e)
    with Suc.prems g g1 show ?thesis by simp
  next
    case (Inr sh)
    obtain prs hasMore where sh: "sh = (prs, hasMore)" by (cases sh)
    obtain r2 w2 where i: "fetchPullRequests_items h ff prs n w1 = (r2, w2)"
      by (cases "fetchPullRequests_items h ff prs n w1") auto
    have g2: "grows w w2"
      using g1 fetchPullRequests_items_grows [OF i] by (rule grows_trans)
    show ?thesis
    proof (cases r2)
      case (Inl e)
      with Suc.prems g Inr sh i g2 show ?thesis by simp
    next
      case Inr2: (Inr cn)
      obtain c n1 where cn: "cn = (c, n1)" by (cases cn)
      define w3 where "w3 = (if n1 \<noteq> 0
                           then emit (Notice (''Fetched '' @ show_nat n1 @ '' pull requests'')) w2
                           else w2)"
      have g3: "grows w w3"
        using g2 unfolding w3_def by (auto intro: grows_emit_right)
      show ?thesis
      proof (cases "hasMore \<and> (ff \<or> c)")
        case False
        with Suc.prems g Inr sh i Inr2 cn have "w' = w3"
          by (auto simp: w3_def Let_def split: if_splits)
        with g3 show ?thesis by simp
      next
        case True
        with Suc.prems g Inr sh i Inr2 cn
        have "fetchPullRequests_pages fuel h ff (Suc page) n1 w3 = Some (r, w')"
          by (auto simp: w3_def Let_def split: if_splits)
        from Suc.IH [OF this] g3 show ?thesis
          by (rule grows_trans [rotated])
      qed
    qed
  qed
qed
subsection \<open>The try block of a run\<close>

lemma fetchStars_try_grows:
  assumes "fetchStars_try fuel h w = Some (r, w1)"
  shows "grows w w1"
proof -
  obtain r0 w0 where d: "ensureTargetDirectoryExists h w = (r0, w0)"
    by (cases "ensureTargetDirectoryExists h w") blast
  note g0 = ensureDirs_grows [OF d [unfolded ensureTargetDirectoryExists_def]]
  show ?thesis
  proof (cases r0)
    case (Inl e)
    with assms d g0 show ?thesis by (simp add: fetchStars_try_def)
  next
    case (Inr u)
    with assms d
    have "fetchStars_pages fuel h (lastFetchDate (settings w0) = '''') 1 0 w0 = Some (r, w1)"
      by (simp add: fetchStars_try_def)
    from g0 fetchStars_pages_grows [OF this] show ?thesis
      by (rule grows_trans)
  qed
qed

lemma fetchPullRequests_try_grows:
  assumes "fetchPullRequests_try fuel h w = Some (r, w1)"
  shows "grows w w1"
proof -
  obtain r0 w0 where d: "ensurePRDirectoryExists h w = (r0, w0)"
    by (cases "ensurePRDirectoryExists h w") blast
  note g0 = ensureDirs_grows [OF d [unfolded ensurePRDirectoryExists_def]]
  show ?thesis
  proof (cases r0)
    case (Inl e)
    with assms d g0 show ?thesis by (simp add: fetchPullRequests_try_def)
  next
    case (Inr u)
    with assms d
    have "fetchPullRequests_pages fuel h (lastPRFetchDate (settings w0) = '''') 1 0 w0 = Some (r, w1)"
      by (simp add: fetchPullRequests_try_def)
    from g0 fetchPullRequests_pages_grows [OF this] show ?thesis
      by (rule grows_trans)
  qed
qed

lemma emitted_append: "log w' = log w @ evs \<Longrightarrow> emitted w w' = evs"
  by (simp add: emitted_def)
subsection \<open>The log of an incremental fetch\<close>

lemma is_existing_is_fetch: "is_existing e \<Longrightarrow> is_fetch e"
  by (cases e) simp_all

lemma quiet_not_existing:
  "list_all (\<lambda>e. \<not> is_fetch e) evs \<Longrightarrow> list_all (\<lambda>e. \<not> is_existing e) evs"
  by (auto simp: list_all_iff dest: is_existing_is_fetch)

lemma stops_append_new:
  "list_all (\<lambda>e. \<not> is_existing e) a \<Longrightarrow> stops_at_existing (a @ b) = stops_at_existing b"
  by (induction a) simp_all

lemma stops_new: "list_all (\<lambda>e. \<not> is_existing e) a \<Longrightarrow> stops_at_existing a"
  using stops_append_new [of a "[]"] by simp

lemma stops_append_quiet:
  "stops_at_existing a \<Longrightarrow> list_all (\<lambda>e. \<not> is_fetch e) b \<Longrightarrow> stops_at_existing (a @ b)"
  by (induction a) (simp_all add: quiet_not_existing stops_new)

lemma stops_at_existing_after:
  "stops_at_existing evs \<Longrightarrow> evs = pre @ e # post \<Longrightarrow> is_existing e
     \<Longrightarrow> list_all (\<lambda>x. \<not> is_fetch x) post"
proof (induction pre arbitrary: evs)
  case Nil
  then show ?case by simp
next
  case (Cons x pre)
  show ?case
  proof (cases "is_existing x")
    case True
    with Cons.prems show ?thesis by simp
  next
    case False
    with Cons.prems have "stops_at_existing (pre @ e # post)" by simp
    from Cons.IH [OF this refl Cons.prems(3)] show ?thesis .
  qed
qed

lemma fetchStars_items_stop:
  "fetchStars_items h False items n w = (c, n', w') \<Longrightarrow>
     \<exists>evs. log w' = log w @ evs \<and> stops_at_existing evs
          \<and> (c \<longrightarrow> list_all (\<lambda>e. \<not> is_existing e) evs)"
proof (induction items arbitrary: n w)
  case Nil
  then show ?case by simp
next
  case (Cons repo rest)
  obtain b w1 where c: "createNoteForRepo h repo w = (b, w1)"
    by (cases "createNoteForRepo h repo w") blast
  from createNoteForRepo_cases [OF c] obtain evs0
    where l: "log w1 = log w @ evs0 @ [RepoNote repo b]"
      and q: "list_all (\<lambda>e. \<not> is_fetch e) evs0"
    by blast
  note q' = quiet_not_existing [OF q]
  show ?case
  proof (cases b)
    case False
    with Cons.prems c have "c = False" "w' = w1" by simp_all
    moreover from False q' have "stops_at_existing (evs0 @ [RepoNote repo b])"
      by (simp add: stops_append_new)
    ultimately show ?thesis using l by auto
  next
    case True
    with Cons.prems c have "fetchStars_items h False rest (Suc n) w1 = (c, n', w')"
      by simp
    from Cons.IH [OF this] obtain evs
      where e: "log w' = log w1 @ evs" "stops_at_existing evs"
        "c \<longrightarrow> list_all (\<lambda>e. \<not> is_existing e) evs"
      by blast
    from True q' have n: "list_all (\<lambda>e. \<not> is_existing e) (evs0 @ [RepoNote repo b])"
      by simp
    have "log w' = log w @ (evs0 @ [RepoNote repo b]) @ evs"
      using e l by simp
    moreover have "stops_at_existing ((evs0 @ [RepoNote repo b]) @ evs)"
      using n e by (simp only: stops_append_new)
    moreover have "c \<longrightarrow> list_all (\<lambda>e. \<not> is_existing e) ((evs0 @ [RepoNote repo b]) @ evs)"
      using n e by simp
    ultimately show ?thesis by blast
  qed
qed

lemma fetchStars_pages_stop:
  "fetchStars_pages fuel h False page n w = Some (r, w') \<Longrightarrow>
     \<exists>evs. log w' = log w @ evs \<and> stops_at_existing evs"
proof (induction fuel arbitrary: page n w)
  case 0
  then show ?case by simp
next
  case (Suc fuel)
  obtain r1 w1 where g: "getStarredRepos h page w = (r1, w1)"
    by (cases "getStarredRepos h page w") blast
  from getStarredRepos_cases [OF g]
  have l1: "log w1 = log w @ [HttpGet (starredParams (settings w) page)]" by simp
  show ?case
  proof (cases r1)
    case (Inl e)
    with Suc.prems g have "w' = w1" by simp
    with l1 show ?thesis by (intro exI [of _ "[HttpGet (starredParams (settings w) page)]"]) simp
  next
    case (Inr sh)
    obtain stars hasMore where sh: "sh = (stars, hasMore)" by (cases sh)
    obtain c n1 w2 where i: "fetchStars_items h False stars n w1 = (c, n1, w2)"
      by (cases "fetchStars_items h False stars n w1") auto
    from fetchStars_items_stop [OF i] obtain evs
      where e: "log w2 = log w1 @ evs" "stops_at_existing evs"
        "c \<longrightarrow> list_all (\<lambda>e. \<not> is_existing e) evs"
      by blast
    define told where "told = (if n1 \<noteq> 0
                         then [Notice (''Fetched '' @ show_nat n1 @ '' GitHub stars'')] else [])"
    define w3 where "w3 = (if n1 \<noteq> 0
                         then emit (Notice (''Fetched '' @ show_nat n1 @ '' GitHub stars'')) w2
                         else w2)"
    have l3: "log w3 = log w @ [HttpGet (starredParams (settings w) page)] @ evs @ told"
      using l1 e by (simp add: w3_def told_def)
    have nq: "list_all (\<lambda>e. \<not> is_fetch e) told"
      by (simp add: told_def)
    have s3: "stops_at_existing ([HttpGet (starredParams (settings w) page)] @ evs @ told)"
      using e nq by (simp add: stops_append_quiet)
    show ?thesis
    proof (cases "hasMore \<and> c")
      case False
      with Suc.prems g Inr sh i have "w' = w3"
        by (auto simp: w3_def Let_def split: if_splits)
      with l3 s3 show ?thesis by blast
    next
      case True
      with Suc.prems g Inr sh i
      have "fetchStars_pages fuel h False (Suc page) n1 w3 = Some (r, w')"
        by (auto simp: w3_def Let_def split: if_splits)
      from Suc.IH [OF this] obtain evs2
        where e2: "log w' = log w3 @ evs2" "stops_at_existing evs2"
        by blast
      from True e nq have "list_all (\<lambda>e. \<not> is_existing e)
                             ([HttpGet (starredParams (settings w) page)] @ evs @ told)"
        by (simp add: quiet_not_existing)
      with e2 have "stops_at_existing
                      (([HttpGet (starredParams (settings w) page)] @ evs @ told) @ evs2)"
        by (simp only: stops_append_new)
      moreover have "log w' = log w @ ([HttpGet (starredParams (settings w) page)] @ evs @ told) @ evs2"
        using e2 l3 by simp
      ultimately show ?thesis by blast
    qed
  qed
qed

lemma fetchPullRequests_items_stop:
  "fetchPullRequests_items h False items n w = (r, w') \<Longrightarrow>
     \<exists>evs. log w' = log w @ evs \<and> stops_at_existing evs
          \<and> (\<forall>n'. r = Inr (True, n') \<longrightarrow> list_all (\<lambda>e. \<not> is_existing e) evs)"
proof (induction items arbitrary: n w)
  case Nil
  then show ?case by simp
next
  case (Cons pr rest)
  obtain r1 w1 where c: "createNoteForPR h pr w = (r1, w1)"
    by (cases "createNoteForPR h pr w") blast
  note a = createNoteForPR_cases [OF c]
  show ?case
  proof (cases r1)
    case (Inl e)
    with Cons.prems c have "r = Inl e" "w' = w1" by simp_all
    with a Inl show ?thesis by simp
  next
    case (Inr b)
    with a obtain evs0
      where l: "log w1 = log w @ evs0 @ [PRNote pr b]"
        and q: "list_all (\<lambda>e. \<not> is_fetch e) evs0"
      by blast
    note q' = quiet_not_existing [OF q]
    show ?thesis
    proof (cases b)
      case False
      with Cons.prems c Inr have "r = Inr (False, n)" "w' = w1" by simp_all
      moreover from False q' have "stops_at_existing (evs0 @ [PRNote pr b])"
        by (simp add: stops_append_new)
      ultimately show ?thesis using l by auto
    next
      case True
      with Cons.prems c Inr have "fetchPullRequests_items h False rest (Suc n) w1 = (r, w')"
        by simp
      from Cons.IH [OF this] obtain evs
        where e: "log w' = log w1 @ evs" "stops_at_existing evs"
          "\<forall>n'. r = Inr (True, n') \<longrightarrow> list_all (\<lambda>e. \<not> is_existing e) evs"
        by blast
      from True q' have n: "list_all (\<lambda>e. \<not> is_existing e) (evs0 @ [PRNote pr b])"
        by simp
      have "log w' = log w @ (evs0 @ [PRNote pr b]) @ evs"
        using e l by simp
      moreover have "stops_at_existing ((evs0 @ [PRNote pr b]) @ evs)"
        using n e by (simp only: stops_append_new)
      moreover have "\<forall>n'. r = Inr (True, n') \<longrightarrow>
                       list_all (\<lambda>e. \<not> is_existing e) ((evs0 @ [PRNote pr b]) @ evs)"
        using n e by simp
      ultimately show ?thesis by blast
    qed
  qed
qed

lemma fetchPullRequests_pages_stop:
  "fetchPullRequests_pages fuel h False page n w = Some (r, w') \<Longrightarrow>
     \<exists>evs. log w' = log w @ evs \<and> stops_at_existing evs"
proof (induction fuel arbitrary: page n w)
  case 0
  then show ?case by simp
next
  case (Suc fuel)
  obtain r1 w1 where g: "getPullRequests h page w = (r1, w1)"
    by (cases "getPullRequests h page w") blast
  from getPullRequests_cases [OF g]
  have l1: "log w1 = log w @ [HttpGet (pullRequestsParams (settings w) page)]" by simp
  show ?case
  proof (cases r1)
    case (Inl e)
    with Suc.prems g have "w' = w1" by simp
    with l1 show ?thesis
      by (intro exI [of _ "[HttpGet (pullRequestsParams (settings w) page)]"]) simp
  next
    case (Inr sh)
    obtain prs hasMore where sh: "sh = (prs, hasMore)" by (cases sh)
    obtain r2 w2 where i: "fetchPullRequests_items h False prs n w1 = (r2, w2)"
      by (cases "fetchPullRequests_items h False prs n w1") auto
    from fetchPullRequests_items_stop [OF i] obtain evs
      where e: "log w2 = log w1 @ evs" "stops_at_existing evs"
        "\<forall>n'. r2 = Inr (True, n') \<longrightarrow> list_all (\<lambda>e. \<not> is_existing e) evs"
      by blast
    have l2: "log w2 = log w @ [HttpGet (pullRequestsParams (settings w) page)] @ evs"
      using l1 e by simp
    have s2: "stops_at_existing ([HttpGet (pullRequestsParams (settings w) page)] @ evs)"
      using e by simp
    show ?thesis
    proof (cases r2)
      case (Inl e)
      with Suc.prems g Inr sh i have "w' = w2" by simp
      with l2 s2 show ?thesis by blast
    next
      case Inr2: (Inr cn)
      obtain c n1 where cn: "cn = (c, n1)" by (cases cn)
      define told where "told = (if n1 \<noteq> 0
                           then [Notice (''Fetched '' @ show_nat n1 @ '' pull requests'')] else [])"
      define w3 where "w3 = (if n1 \<noteq> 0
                           then emit (Notice (''Fetched '' @ show_nat n1 @ '' pull requests'')) w2
                           else w2)"
      have l3: "log w3 = log w @ [HttpGet (pullRequestsParams (settings w) page)] @ evs @ told"
        using l2 by (simp add: w3_def told_def)
      have nq: "list_all (\<lambda>e. \<not> is_fetch e) told"
        by (simp add: told_def)
      have s3: "stops_at_existing ([HttpGet (pullRequestsParams (settings w) page)] @ evs @ told)"
        using e nq by (simp add: stops_append_quiet)
      show ?thesis
      proof (cases "hasMore \<and> c")
        case False
        with Suc.prems g Inr sh i Inr2 cn have "w' = w3"
          by (auto simp: w3_def Let_def split: if_splits)
        with l3 s3 show ?thesis by blast
      next
        case True
        with Suc.prems g Inr sh i Inr2 cn
        have "fetchPullRequests_pages fuel h False (Suc page) n1 w3 = Some (r, w')"
          by (auto simp: w3_def Let_def split: if_splits)
        from Suc.IH [OF this] obtain evs2
          where e2: "log w' = log w3 @ evs2" "stops_at_existing evs2"
          by blast
        from True e nq Inr2 cn have "list_all (\<lambda>e. \<not> is_existing e)
                               ([HttpGet (pullRequestsParams (settings w) page)] @ evs @ told)"
          by (simp add: quiet_not_existing)
        with e2 have "stops_at_existing
                        (([HttpGet (pullRequestsParams (settings w) page)] @ evs @ told) @ evs2)"
          by (simp only: stops_append_new)
        moreover have "log w' = log w @ ([HttpGet (pullRequestsParams (settings w) page)] @ evs @ told) @ evs2"
          using e2 l3 by simp
        ultimately show ?thesis by blast
      qed
    qed
  qed
qed
subsection \<open>The log of a first fetch\<close>

lemma fetch_view_append [simp]: "fetch_view (a @ b) = fetch_view a @ fetch_view b"
  by (simp add: fetch_view_def)

lemma fetch_view_Nil [simp]: "fetch_view [] = []"
  by (simp add: fetch_view_def)

lemma fetch_view_Cons: "fetch_view (e # es) = fetch_of e @ fetch_view es"
  by (simp add: fetch_view_def)

lemma fetch_of_quiet: "\<not> is_fetch e \<Longrightarrow> fetch_of e = []"
  by (cases e) simp_all

lemma fetch_view_quiet: "list_all (\<lambda>e. \<not> is_fetch e) evs \<Longrightarrow> fetch_view evs = []"
  by (induction evs) (simp_all add: fetch_view_Cons fetch_of_quiet)

lemma fetchStars_items_first:
  "fetchStars_items h True items n w = (c, n', w') \<Longrightarrow>
     c \<and> n' = n + length items
     \<and> (\<exists>evs. log w' = log w @ evs \<and> fetch_view evs = map StarItem items)"
proof (induction items arbitrary: n w)
  case Nil
  then show ?case by simp
next
  case (Cons repo rest)
  obtain b w1 where c: "createNoteForRepo h repo w = (b, w1)"
    by (cases "createNoteForRepo h repo w") blast
  from createNoteForRepo_cases [OF c] obtain evs0
    where l: "log w1 = log w @ evs0 @ [RepoNote repo b]"
      and q: "list_all (\<lambda>e. \<not> is_fetch e) evs0"
    by blast
  from Cons.prems c have "fetchStars_items h True rest (Suc n) w1 = (c, n', w')"
    by simp
  from Cons.IH [OF this] obtain evs
    where r: "c" "n' = Suc n + length rest" "log w' = log w1 @ evs"
      "fetch_view evs = map StarItem rest"
    by blast
  have "log w' = log w @ (evs0 @ [RepoNote repo b]) @ evs"
    using l r by simp
  moreover have "fetch_view ((evs0 @ [RepoNote repo b]) @ evs) = map StarItem (repo # rest)"
    using r q by (simp add: fetch_view_quiet fetch_view_Cons)
  ultimately show ?case using r by auto
qed

lemma fetchStars_pages_serves:
  "serves h (settings w) page pages \<Longrightarrow> length pages \<le> fuel \<Longrightarrow>
     \<exists>n' w'. fetchStars_pages fuel h True page n w = Some (Inr n', w')
       \<and> (\<exists>evs. log w' = log w @ evs \<and> fetch_view evs = pages_view page pages)"
proof (induction pages arbitrary: page fuel n w)
  case Nil
  then show ?case by simp
next
  case (Cons p ps)
  from Cons.prems(2) obtain f where fuel: "fuel = Suc f" and f: "length ps \<le> f"
    by (cases fuel) auto
  from Cons.prems(1) have rq: "requestStars h (starredParams (settings w) page) = Inr p"
    by (cases ps) simp_all
  define w1 where "w1 = emit (HttpGet (starredParams (settings w) page)) w"
  from rq have g: "getStarredRepos h page w = (Inr (p, length p = perPage), w1)"
    by (simp add: getStarredRepos_def w1_def Let_def)
  obtain c n1 w2 where i: "fetchStars_items h True p n w1 = (c, n1, w2)"
    by (cases "fetchStars_items h True p n w1") auto
  from fetchStars_items_first [OF i] obtain evs
    where e: "log w2 = log w1 @ evs" "fetch_view evs = map StarItem p"
    by blast
  from fetchStars_items_grows [OF i] have s2: "settings w2 = settings w"
    by (simp add: grows_def w1_def)
  define w3 where "w3 = (if n1 \<noteq> 0
                       then emit (Notice (''Fetched '' @ show_nat n1 @ '' GitHub stars'')) w2
                       else w2)"
  have s3: "settings w3 = settings w"
    using s2 by (simp add: w3_def)
  obtain tl where l3: "log w3 = log w @ [HttpGet (starredParams (settings w) page)] @ evs @ tl"
    and tl: "fetch_view tl = []"
    using e by (cases "n1 = 0") (auto simp: w3_def w1_def fetch_view_Cons)
  have v3: "fetch_view ([HttpGet (starredParams (settings w) page)] @ evs @ tl)
              = Page page # map StarItem p"
    using e tl by (simp add: fetch_view_Cons starredParams_def)
  show ?case
  proof (cases ps)
    case Nil
    with Cons.prems(1) have "length p \<noteq> perPage" by simp
    with g i have "fetchStars_pages fuel h True page n w = Some (Inr n1, w3)"
      by (simp add: fuel w3_def Let_def)
    with l3 v3 Nil show ?thesis by auto
  next
    case more: (Cons q qs)
    with Cons.prems(1) have full: "length p = perPage"
      and sv: "serves h (settings w3) (Suc page) ps"
      using s3 by simp_all
    from Cons.IH [OF sv f, of n1] obtain n' w' evs2
      where rec: "fetchStars_pages f h True (Suc page) n1 w3 = Some (Inr n', w')"
        and l: "log w' = log w3 @ evs2" and v: "fetch_view evs2 = pages_view (Suc page) ps"
      by blast
    from g i full rec have "fetchStars_pages fuel h True page n w = Some (Inr n', w')"
      by (simp add: fuel w3_def Let_def)
    moreover have "log w' = log w @ ([HttpGet (starredParams (settings w) page)] @ evs @ tl) @ evs2"
      using l l3 by simp
    moreover have "fetch_view (([HttpGet (starredParams (settings w) page)] @ evs @ tl) @ evs2)
                     = pages_view page (p # ps)"
      using v3 v by (simp only: fetch_view_append pages_view.simps) simp
    ultimately show ?thesis by blast
  qed
qed
subsection \<open>The first fetch and the words of the specification\<close>

lemma full_backfill_cong:
  "starredParams st = starredParams st' \<Longrightarrow>
     full_backfill fuel h st page = full_backfill fuel h st' page"
  by (induction fuel arbitrary: page) (simp_all split: sum.splits)

lemma fetchStars_pages_backfill:
  assumes bound: "\<forall>r stars. requestStars h r = Inr stars \<longrightarrow> length stars \<le> perPage"
  shows "case fetchStars_pages fuel h True page n w of
     None \<Rightarrow> full_backfill fuel h (settings w) page = None
   | Some (r, w') \<Rightarrow>
       \<exists>evs. log w' = log w @ evs \<and> full_backfill fuel h (settings w) page = Some (fetch_view evs)"
proof (induction fuel arbitrary: page n w)
  case 0
  show ?case by simp
next
  case (Suc fuel)
  define w1 where "w1 = emit (HttpGet (starredParams (settings w) page)) w"
  show ?case
  proof (cases "requestStars h (starredParams (settings w) page)")
    case (Inl e)
    then have "fetchStars_pages (Suc fuel) h True page n w = Some (Inl e, w1)"
      by (simp add: getStarredRepos_def w1_def Let_def)
    moreover have "log w1 = log w @ [HttpGet (starredParams (settings w) page)]"
      by (simp add: w1_def)
    moreover have "fetch_view [HttpGet (starredParams (settings w) page)] = [Page page]"
      by (simp add: fetch_view_Cons starredParams_def)
    ultimately show ?thesis using Inl by simp
  next
    case (Inr p)
    then have g: "getStarredRepos h page w = (Inr (p, length p = perPage), w1)"
      by (simp add: getStarredRepos_def w1_def Let_def)
    obtain c n1 w2 where i: "fetchStars_items h True p n w1 = (c, n1, w2)"
      by (cases "fetchStars_items h True p n w1") auto
    from fetchStars_items_first [OF i] obtain evs
      where e: "log w2 = log w1 @ evs" "fetch_view evs = map StarItem p"
      by blast
    from fetchStars_items_grows [OF i] have s2: "settings w2 = settings w"
      by (simp add: grows_def w1_def)
    define w3 where "w3 = (if n1 \<noteq> 0
                         then emit (Notice (''Fetched '' @ show_nat n1 @ '' GitHub stars'')) w2
                         else w2)"
    have s3: "settings w3 = settings w"
      using s2 by (simp add: w3_def)
    obtain tl where l3: "log w3 = log w @ [HttpGet (starredParams (settings w) page)] @ evs @ tl"
      and tl: "fetch_view tl = []"
      using e by (cases "n1 = 0") (auto simp: w3_def w1_def fetch_view_Cons)
    have v3: "fetch_view ([HttpGet (starredParams (settings w) page)] @ evs @ tl)
                = Page page # map StarItem p"
      using e tl by (simp add: fetch_view_Cons starredParams_def)
    from bound Inr have le: "length p \<le> perPage" by blast
    show ?thesis
    proof (cases "length p = perPage")
      case False
      with g i have "fetchStars_pages (Suc fuel) h True page n w = Some (Inr n1, w3)"
        by (simp add: w3_def Let_def)
      with l3 v3 Inr False le show ?thesis by simp
    next
      case True
      with g i have step: "fetchStars_pages (Suc fuel) h True page n w
                             = fetchStars_pages fuel h True (Suc page) n1 w3"
        by (simp add: w3_def Let_def)
      note ih = Suc.IH [where page = "Suc page" and n = n1 and w = w3]
      show ?thesis
      proof (cases "fetchStars_pages fuel h True (Suc page) n1 w3")
        case None
        with ih s3 step Inr True show ?thesis by simp
      next
        case (Some rw)
        obtain r w' where rw: "rw = (r, w')" by (cases rw)
        with ih Some s3 obtain evs2
          where l: "log w' = log w3 @ evs2"
            and b: "full_backfill fuel h (settings w) (Suc page) = Some (fetch_view evs2)"
          by auto
        have "log w' = log w @ ([HttpGet (starredParams (settings w) page)] @ evs @ tl) @ evs2"
          using l l3 by simp
        moreover have "full_backfill (Suc fuel) h (settings w) page
                         = Some (fetch_view (([HttpGet (starredParams (settings w) page)] @ evs @ tl) @ evs2))"
          using Inr True b v3 by (simp only: fetch_view_append) simp
        ultimately show ?thesis
          using step Some rw by auto
      qed
    qed
  qed
qed

lemma ensureDirs_no_fault:
  "\<forall>p. faults h (CreateFolder p) = None \<Longrightarrow> fst (ensureDirs h cur ds w) = Inr ()"
proof (induction ds arbitrary: cur w)
  case Nil
  show ?case by simp
next
  case (Cons d ds)
  then show ?case
    by (simp add: Let_def createFolder_def)
qed

lemma fetchStars_tail:
  assumes "syncEnabled (settings w)" and "settingsAreValid (settings w)"
    and "fetchStars_try fuel h w = Some (r, w1)"
  shows "\<exists>w' tl. fetchStars fuel h w = Some w' \<and> log w' = log w1 @ tl
           \<and> list_all (\<lambda>e. \<not> is_fetch e) tl \<and> vault w' = vault w1"
proof (cases r)
  case (Inl e)
  define tl where "tl = [ConsoleError ''Error fetching GitHub stars:'' e,
                         Notice (''Error fetching GitHub stars: '' @ message e)]"
  define w' where "w' = emit (Notice (''Error fetching GitHub stars: '' @ message e))
                          (emit (ConsoleError ''Error fetching GitHub stars:'' e) w1)"
  from assms Inl have "fetchStars fuel h w = Some w'"
    by (simp add: fetchStars_def w'_def)
  moreover have "log w' = log w1 @ tl" "list_all (\<lambda>e. \<not> is_fetch e) tl" "vault w' = vault w1"
    by (simp_all add: w'_def tl_def)
  ultimately show ?thesis by blast
next
  case (Inr n)
  define w2 where "w2 = saveSettings (w1\<lparr>settings := (settings w1)\<lparr>lastFetchDate := nowISO h\<rparr>\<rparr>)"
  define w' where "w' = (if n \<noteq> 0
                      then emit (Notice (''Total '' @ show_nat n @ '' GitHub stars'')) w2
                      else w2)"
  define tl where "tl = SaveData ((settings w1)\<lparr>lastFetchDate := nowISO h\<rparr>)
                        # (if n \<noteq> 0 then [Notice (''Total '' @ show_nat n @ '' GitHub stars'')]
                           else [])"
  from assms Inr have "fetchStars fuel h w = Some w'"
    by (simp add: fetchStars_def w'_def w2_def Let_def)
  moreover have "log w' = log w1 @ tl" "list_all (\<lambda>e. \<not> is_fetch e) tl" "vault w' = vault w1"
    by (simp_all add: w'_def w2_def tl_def saveSettings_def)
  ultimately show ?thesis by blast
qed

lemma fetchStars_backfill:
  assumes "syncEnabled (settings w)" and "settingsAreValid (settings w)"
    and "lastFetchDate (settings w) = ''''"
    and "fst (ensureTargetDirectoryExists h w) = Inr ()"
    and bound: "\<forall>r stars. requestStars h r = Inr stars \<longrightarrow> length stars \<le> perPage"
  shows "case fetchStars fuel h w of
           None \<Rightarrow> full_backfill fuel h (settings w) 1 = None
         | Some w' \<Rightarrow>
             \<exists>evs. log w' = log w @ evs
                  \<and> full_backfill fuel h (settings w) 1 = Some (fetch_view evs)"
proof -
  obtain r0 w0 where d: "ensureTargetDirectoryExists h w = (r0, w0)"
    by (cases "ensureTargetDirectoryExists h w") blast
  with assms(4) have r0: "r0 = Inr ()" by simp
  note c = ensureDirs_cases [OF d [unfolded ensureTargetDirectoryExists_def]]
  from d r0 assms(3) c
  have t: "fetchStars_try fuel h w = fetchStars_pages fuel h True 1 0 w0"
    by (simp add: fetchStars_try_def)
  note b = fetchStars_pages_backfill [OF bound, where fuel = fuel and page = 1 and n = 0 and w = w0]
  show ?thesis
  proof (cases "fetchStars_pages fuel h True 1 0 w0")
    case None
    with assms(1,2) t b c show ?thesis
      by (simp add: fetchStars_def)
  next
    case (Some rw)
    obtain r w1 where rw: "rw = (r, w1)" by (cases rw)
    with b Some c obtain evs
      where l: "log w1 = log w @ evs"
        and v: "full_backfill fuel h (settings w) 1 = Some (fetch_view evs)"
      by auto
    from t Some rw have "fetchStars_try fuel h w = Some (r, w1)" by simp
    from fetchStars_tail [OF assms(1,2) this] obtain w' tl
      where "fetchStars fuel h w = Some w'" "log w' = log w1 @ tl"
        "list_all (\<lambda>e. \<not> is_fetch e) tl"
      by blast
    moreover from this l v have "log w' = log w @ evs @ tl"
      "full_backfill fuel h (settings w) 1 = Some (fetch_view (evs @ tl))"
      by (simp_all add: fetch_view_quiet)
    ultimately show ?thesis by auto
  qed
qed
subsection \<open>The first item of a page\<close>

lemma files_of_vault: "vault a = vault b \<Longrightarrow> files_of a = files_of b"
  by (simp add: files_of_def)

lemma createNoteForRepo_existing:
  assumes "vault w (fileNameForRepo (settings w) repo) \<noteq> None"
  shows "dom (vault (snd (createNoteForRepo h repo w))) = dom (vault w)
       \<and> files_of (snd (createNoteForRepo h repo w)) = files_of w"
proof -
  define P where "P = fileNameForRepo (settings w) repo"
  obtain b w' where c: "createNoteForRepo h repo w = (b, w')"
    by (cases "createNoteForRepo h repo w") blast
  note a = createNoteForRepo_cases [OF c, folded P_def]
  have P: "vault w' P \<noteq> None \<and> ((\<exists>n. vault w' P = Some (File n)) = (\<exists>n. vault w P = Some (File n)))"
    using a assms entry_option_cases [of "vault w P"] unfolding P_def [symmetric]
    by (elim disjE exE) auto
  have "(vault w' q \<noteq> None) = (vault w q \<noteq> None)
        \<and> ((\<exists>n. vault w' q = Some (File n)) = (\<exists>n. vault w q = Some (File n)))" for q
  proof (cases "q = P")
    case True
    with P assms show ?thesis by (simp add: P_def)
  next
    case False
    with a show ?thesis by simp
  qed
  then have "dom (vault w') = dom (vault w)" "files_of w' = files_of w"
    by (auto simp: dom_def files_of_def)
  with c show ?thesis by simp
qed

lemma fetchStars_pages_error:
  "requestStars h (starredParams (settings w) page) = Inl e \<Longrightarrow>
     fetchStars_pages (Suc f) h ff page n w
       = Some (Inl e, emit (HttpGet (starredParams (settings w) page)) w)"
  by (simp add: getStarredRepos_def Let_def)

lemma fetchStars_pages_empty:
  "requestStars h (starredParams (settings w) page) = Inr [] \<Longrightarrow>
     fetchStars_pages (Suc f) h ff page 0 w
       = Some (Inr 0, emit (HttpGet (starredParams (settings w) page)) w)"
  by (simp add: getStarredRepos_def Let_def perPage_def)

text \<open>
  A run that got a page with a first item has materialized that item, and unless an
  error was written to the console while it did, something is at the path of its note
  from then on.
\<close>

lemma fetchStars_pages_first_item:
  assumes "fetchStars_pages fuel h ff page n w = Some (r, wT)"
    and "requestStars h (starredParams (settings w) page) = Inr (repo # rest)"
  shows "\<exists>evs0 b more.
           log wT = log w @ HttpGet (starredParams (settings w) page) # evs0 @ RepoNote repo b # more
           \<and> (list_all (\<lambda>e. \<not> is_error e) evs0 \<longrightarrow>
                vault wT (fileNameForRepo (settings w) repo) \<noteq> None)"
proof -
  from assms(1) obtain f where fuel: "fuel = Suc f" by (cases fuel) auto
  define w1 where "w1 = emit (HttpGet (starredParams (settings w) page)) w"
  define P where "P = fileNameForRepo (settings w) repo"
  from assms(2)
  have g: "getStarredRepos h page w = (Inr (repo # rest, length (repo # rest) = perPage), w1)"
    by (simp add: getStarredRepos_def w1_def Let_def)
  obtain b wa where c: "createNoteForRepo h repo w1 = (b, wa)"
    by (cases "createNoteForRepo h repo w1") blast
  from createNoteForRepo_cases [OF c] obtain evs0
    where l: "log wa = log w1 @ evs0 @ [RepoNote repo b]"
      and ex: "list_all (\<lambda>e. \<not> is_error e) evs0 \<longrightarrow> vault wa P \<noteq> None"
    by (auto simp: w1_def P_def)
  obtain cf n1 w2 where i: "fetchStars_items h ff (repo # rest) n w1 = (cf, n1, w2)"
    by (cases "fetchStars_items h ff (repo # rest) n w1") auto
  have g2: "grows wa w2"
  proof (cases "\<not> ff \<and> \<not> b")
    case True
    with i c show ?thesis by auto
  next
    case False
    with i c have "fetchStars_items h ff rest (Suc n) wa = (cf, n1, w2)" by auto
    then show ?thesis by (rule fetchStars_items_grows)
  qed
  define w3 where "w3 = (if n1 \<noteq> 0
                       then emit (Notice (''Fetched '' @ show_nat n1 @ '' GitHub stars'')) w2
                       else w2)"
  have g3: "grows wa w3"
    using g2 unfolding w3_def by (auto intro: grows_emit_right)
  have gT: "grows wa wT"
  proof (cases "length (repo # rest) = perPage \<and> (ff \<or> cf)")
    case False
    with assms(1) g i have "wT = w3"
      by (auto simp: fuel w3_def Let_def split: if_splits)
    with g3 show ?thesis by simp
  next
    case True
    with assms(1) g i have "fetchStars_pages f h ff (Suc page) n1 w3 = Some (r, wT)"
      by (auto simp: fuel w3_def Let_def split: if_splits)
    from g3 fetchStars_pages_grows [OF this] show ?thesis
      by (rule grows_trans)
  qed
  then obtain more where m: "log wT = log wa @ more"
    and v: "\<forall>p. vault wa p \<noteq> None \<longrightarrow> vault wT p \<noteq> None"
    by (auto simp: grows_def)
  have "log wT = log w @ HttpGet (starredParams (settings w) page) # evs0 @ RepoNote repo b # more"
    using m l by (simp add: w1_def)
  moreover have "list_all (\<lambda>e. \<not> is_error e) evs0 \<longrightarrow> vault wT P \<noteq> None"
    using ex v by blast
  ultimately show ?thesis
    unfolding P_def by blast
qed

text \<open>With a watermark, a page whose first item has a note ends the run at that item.\<close>

lemma fetchStars_pages_existing_first:
  assumes "requestStars h (starredParams (settings w) page) = Inr (repo # rest)"
    and "vault w (fileNameForRepo (settings w) repo) \<noteq> None"
  shows "\<exists>w'. fetchStars_pages (Suc f) h False page 0 w = Some (Inr 0, w')
           \<and> files_of w' = files_of w
           \<and> (\<exists>evs. log w' = log w @ evs \<and> fetch_view evs = [Page page, StarItem repo])"
proof -
  define w1 where "w1 = emit (HttpGet (starredParams (settings w) page)) w"
  from assms(1)
  have g: "getStarredRepos h page w = (Inr (repo # rest, length (repo # rest) = perPage), w1)"
    by (simp add: getStarredRepos_def w1_def Let_def)
  obtain b wb where c: "createNoteForRepo h repo w1 = (b, wb)"
    by (cases "createNoteForRepo h repo w1") blast
  from assms(2) have ex1: "vault w1 (fileNameForRepo (settings w1) repo) \<noteq> None"
    by (simp add: w1_def)
  from createNoteForRepo_cases [OF c] ex1 obtain evs0
    where b: "b = False" and l: "log wb = log w1 @ evs0 @ [RepoNote repo b]"
      and q: "list_all (\<lambda>e. \<not> is_fetch e) evs0"
    by auto
  from createNoteForRepo_existing [OF ex1, of h] c have fl: "files_of wb = files_of w"
    by (simp add: files_of_def w1_def)
  from c b have "fetchStars_items h False (repo # rest) 0 w1 = (False, 0, wb)"
    by simp
  with g have "fetchStars_pages (Suc f) h False page 0 w = Some (Inr 0, wb)"
    by (simp add: Let_def)
  moreover have "log wb = log w @ (HttpGet (starredParams (settings w) page) # evs0 @ [RepoNote repo b])"
    using l by (simp add: w1_def)
  moreover have "fetch_view (HttpGet (starredParams (settings w) page) # evs0 @ [RepoNote repo b])
                   = [Page page, StarItem repo]"
    using q by (simp add: fetch_view_Cons fetch_view_quiet starredParams_def)
  ultimately show ?thesis
    using fl by blast
qed
subsection \<open>An item that has a note ends the incremental fetch\<close>

lemma fetchStars_items_existing:
  "repo \<in> set items \<Longrightarrow> vault w (fileNameForRepo (settings w) repo) \<noteq> None
     \<Longrightarrow> fetchStars_items h False items n w = (c, n', w') \<Longrightarrow> \<not> c"
proof (induction items arbitrary: n w)
  case Nil
  then show ?case by simp
next
  case (Cons x rest)
  obtain b w1 where c: "createNoteForRepo h x w = (b, w1)"
    by (cases "createNoteForRepo h x w") blast
  note a = createNoteForRepo_cases [OF c]
  show ?case
  proof (cases b)
    case False
    with Cons.prems(3) c show ?thesis by simp
  next
    case True
    with a have "vault w (fileNameForRepo (settings w) x) = None" by simp
    with Cons.prems(1,2) have in_rest: "repo \<in> set rest" by auto
    from createNoteForRepo_grows [OF c] Cons.prems(2)
    have "vault w1 (fileNameForRepo (settings w1) repo) \<noteq> None"
      by (simp add: grows_def)
    moreover from True Cons.prems(3) c
    have "fetchStars_items h False rest (Suc n) w1 = (c, n', w')" by simp
    ultimately show ?thesis
      using in_rest by (rule Cons.IH [rotated])
  qed
qed

lemma fetchStars_pages_existing:
  assumes "requestStars h (starredParams (settings w) page) = Inr stars"
    and "repo \<in> set stars" and "vault w (fileNameForRepo (settings w) repo) \<noteq> None"
  shows "fetchStars_pages (Suc f) h False page n w \<noteq> None"
proof -
  define w1 where "w1 = emit (HttpGet (starredParams (settings w) page)) w"
  from assms(1) have g: "getStarredRepos h page w = (Inr (stars, length stars = perPage), w1)"
    by (simp add: getStarredRepos_def w1_def Let_def)
  obtain c n1 w2 where i: "fetchStars_items h False stars n w1 = (c, n1, w2)"
    by (cases "fetchStars_items h False stars n w1") auto
  from assms(3) have "vault w1 (fileNameForRepo (settings w1) repo) \<noteq> None"
    by (simp add: w1_def)
  from fetchStars_items_existing [OF assms(2) this i] have "\<not> c" .
  with g i show ?thesis
    by (simp add: Let_def)
qed

lemma fetchPullRequests_items_existing:
  "pr \<in> set items \<Longrightarrow> vault w (fileNameForPR (settings w) pr) \<noteq> None
     \<Longrightarrow> fetchPullRequests_items h False items n w = (r, w') \<Longrightarrow> \<forall>n'. r \<noteq> Inr (True, n')"
proof (induction items arbitrary: n w)
  case Nil
  then show ?case by simp
next
  case (Cons x rest)
  obtain r1 w1 where c: "createNoteForPR h x w = (r1, w1)"
    by (cases "createNoteForPR h x w") blast
  note a = createNoteForPR_cases [OF c]
  show ?case
  proof (cases r1)
    case (Inl e)
    with Cons.prems(3) c show ?thesis by auto
  next
    case (Inr b)
    show ?thesis
    proof (cases b)
      case False
      with Cons.prems(3) c Inr show ?thesis by auto
    next
      case True
      from a Inr have "b = (vault w (fileNameForPR (settings w) x) = None)" by blast
      with True have "vault w (fileNameForPR (settings w) x) = None" by simp
      with Cons.prems(1,2) have in_rest: "pr \<in> set rest" by auto
      from createNoteForPR_grows [OF c] Cons.prems(2)
      have "vault w1 (fileNameForPR (settings w1) pr) \<noteq> None"
        by (simp add: grows_def)
      moreover from True Cons.prems(3) c Inr
      have "fetchPullRequests_items h False rest (Suc n) w1 = (r, w')" by simp
      ultimately show ?thesis
        using in_rest by (rule Cons.IH [rotated])
    qed
  qed
qed

lemma fetchPullRequests_pages_existing:
  assumes "requestPRs h (pullRequestsParams (settings w) page) = Inr prs"
    and "pr \<in> set prs" and "vault w (fileNameForPR (settings w) pr) \<noteq> None"
  shows "fetchPullRequests_pages (Suc f) h False page n w \<noteq> None"
proof -
  define w1 where "w1 = emit (HttpGet (pullRequestsParams (settings w) page)) w"
  from assms(1) have g: "getPullRequests h page w = (Inr (prs, length prs = perPage), w1)"
    by (simp add: getPullRequests_def w1_def Let_def)
  obtain r2 w2 where i: "fetchPullRequests_items h False prs n w1 = (r2, w2)"
    by (cases "fetchPullRequests_items h False prs n w1") auto
  from assms(3) have "vault w1 (fileNameForPR (settings w1) pr) \<noteq> None"
    by (simp add: w1_def)
  from fetchPullRequests_items_existing [OF assms(2) this i] have nt: "\<forall>n'. r2 \<noteq> Inr (True, n')" .
  show ?thesis
  proof (cases r2)
    case (Inl e)
    with g i show ?thesis by simp
  next
    case (Inr cn)
    obtain c n1 where "cn = (c, n1)" by (cases cn)
    with Inr nt g i show ?thesis
      by (cases c) (simp_all add: Let_def)
  qed
qed

section \<open>Configuration errors\<close>

text \<open>
  Claim C8. When the username or the target directory is missing, \<open>fetchStars\<close> and
  \<open>fetchPullRequests\<close> return at once: the world they leave is the one they found with
  one notification added to the log. So no request was sent, no settings field and no
  file was changed, and nothing was saved.
\<close>

theorem invalid_settings_abort:
  assumes "username (settings w) = '''' \<or> targetDirectory (settings w) = ''''"
  shows "(\<exists>msg. fetchStars fuel h w = Some (w\<lparr>log := log w @ [Notice msg]\<rparr>))
       \<and> (\<exists>msg. fetchPullRequests fuel' h w = Some (w\<lparr>log := log w @ [Notice msg]\<rparr>))"
  using assms
  by (auto simp: fetchStars_def fetchPullRequests_def settingsAreValid_def emit_def)

theorem invalid_settings_abort_witness:
  "username (settings unconfigured_world) = ''''
   \<and> (\<exists>msg. fetchStars 0 quiet_host unconfigured_world
              = Some (unconfigured_world\<lparr>log := log unconfigured_world @ [Notice msg]\<rparr>))
   \<and> (\<exists>msg. fetchPullRequests 0 quiet_host unconfigured_world
              = Some (unconfigured_world\<lparr>log := log unconfigured_world @ [Notice msg]\<rparr>))"
proof -
  have u: "username (settings unconfigured_world) = ''''"
    by (simp add: unconfigured_world_def DEFAULT_SETTINGS_def)
  then have "username (settings unconfigured_world) = ''''
             \<or> targetDirectory (settings unconfigured_world) = ''''"
    by simp
  from invalid_settings_abort [OF this, of 0 quiet_host 0] u show ?thesis
    by simp
qed
section \<open>The value that a materializer returns\<close>

text \<open>
  Claim C10. The boolean that \<open>createNoteForRepo\<close> returns says that nothing existed at the
  path of the note when the function was called, and so does the boolean of
  \<open>createNoteForPR\<close> whenever that function returns one. The path is looked up once,
  before the \<open>try\<close> block, and the value does not depend on the host: with another host,
  whose template, \<open>vault.create\<close> or \<open>processFrontMatter\<close> may throw where those of the
  first do not, the same boolean comes back.
\<close>

theorem created_iff_absent:
  "fst (createNoteForRepo h repo w) = (vault w (fileNameForRepo (settings w) repo) = None)
   \<and> fst (createNoteForRepo h' repo w) = fst (createNoteForRepo h repo w)
   \<and> (\<forall>b w'. createNoteForPR h pr w = (Inr b, w') \<longrightarrow>
         b = (vault w (fileNameForPR (settings w) pr) = None))
   \<and> (\<forall>b b' w' w''. createNoteForPR h pr w = (Inr b, w') \<longrightarrow>
         createNoteForPR h' pr w = (Inr b', w'') \<longrightarrow> b' = b)"
proof -
  have star: "fst (createNoteForRepo g repo w) = (vault w (fileNameForRepo (settings w) repo) = None)"
    for g
    using createNoteForRepo_cases [of g repo w "fst (createNoteForRepo g repo w)"
                                     "snd (createNoteForRepo g repo w)"]
    by simp
  have pr: "b = (vault w (fileNameForPR (settings w) pr) = None)"
    if "createNoteForPR g pr w = (Inr b, w')" for g b w'
    using createNoteForPR_cases [OF that] by simp
  from star [of h] star [of h'] pr [of h] pr [of h'] show ?thesis
    by (intro conjI allI impI) simp_all
qed

theorem created_iff_absent_witness:
  "createNoteForPR quiet_host demo_pr empty_world
     = (Inr True, snd (createNoteForPR quiet_host demo_pr empty_world))
   \<and> createNoteForPR readonly_host demo_pr empty_world
     = (Inr True, snd (createNoteForPR readonly_host demo_pr empty_world))
   \<and> vault empty_world (fileNameForPR (settings empty_world) demo_pr) = None"
proof -
  have "fst (createNoteForPR quiet_host demo_pr empty_world) = Inr True"
    by code_simp
  then have q: "createNoteForPR quiet_host demo_pr empty_world
                  = (Inr True, snd (createNoteForPR quiet_host demo_pr empty_world))"
    by (simp add: prod_eq_iff)
  have "fst (createNoteForPR readonly_host demo_pr empty_world) = Inr True"
    by code_simp
  then have r: "createNoteForPR readonly_host demo_pr empty_world
                  = (Inr True, snd (createNoteForPR readonly_host demo_pr empty_world))"
    by (simp add: prod_eq_iff)
  from created_iff_absent [of quiet_host demo_repo empty_world readonly_host demo_pr] q
  have "True = (vault empty_world (fileNameForPR (settings empty_world) demo_pr) = None)"
    by blast
  with q r show ?thesis by simp
qed

section \<open>Errors of one item\<close>

text \<open>
  Claim C3 says that the error of an item whose materialization raises one is always
  caught, and that such an item always counts as new. Neither holds. When something
  exists at the path of the note, here a folder, the \<open>try\<close> block throws and
  \<open>createNoteForRepo\<close> returns false. And an error of \<open>ensureDirectoryExists\<close>, which
  \<open>createNoteForPR\<close> calls before its \<open>try\<close> block, is not caught: it leaves the function,
  the loop over the page ends there, the next pull request of the page is never tried,
  and the watermark stays as it was.
\<close>

theorem failed_item_counts_as_new_counterexample:
  "repo_note_fails quiet_host demo_repo folder_world
   \<and> fst (createNoteForRepo quiet_host demo_repo folder_world) = False
   \<and> pr_note_fails nofolder_host demo_pr empty_world
   \<and> fst (createNoteForPR nofolder_host demo_pr empty_world) = Inl (Error ''EACCES'')
   \<and> fetchPullRequests 1 nofolder_host empty_world = Some aborted_pr_run
   \<and> fetch_view (emitted empty_world aborted_pr_run) = [Page 1]
   \<and> lastPRFetchDate (settings aborted_pr_run) = ''''"
proof -
  have "fetchPullRequests 1 nofolder_host empty_world \<noteq> None"
    by code_simp
  then have run: "fetchPullRequests 1 nofolder_host empty_world = Some aborted_pr_run"
    by (auto simp: aborted_pr_run_def)
  have "repo_note_fails quiet_host demo_repo folder_world"
    and "fst (createNoteForRepo quiet_host demo_repo folder_world) = False"
    and "pr_note_fails nofolder_host demo_pr empty_world"
    and "fst (createNoteForPR nofolder_host demo_pr empty_world) = Inl (Error ''EACCES'')"
    and "fetch_view (emitted empty_world aborted_pr_run) = [Page 1]"
    and "lastPRFetchDate (settings aborted_pr_run) = ''''"
    by code_simp+
  with run show ?thesis by (intro conjI)
qed

text \<open>
  Claim C3 as amended. An error that the materialization of an item raises inside the
  \<open>try\<close> block of \<open>createNoteForRepo\<close> or of \<open>createNoteForPR\<close> is caught and written to the
  console, and the function returns, so the loop over the page goes on. For a starred
  repository that is every error of the materialization; for a pull request it is every
  error raised once the directory of the repository is there or has been made. The value
  returned is the one that is returned without an error: true when nothing existed at
  the path of the note before the call, and false when something did.
\<close>

theorem failed_item_is_caught:
  "(repo_note_fails h repo w \<longrightarrow>
      (\<exists>w' e. createNoteForRepo h repo w
                 = (vault w (fileNameForRepo (settings w) repo) = None, w')
             \<and> ConsoleError (''Error creating note for '' @ name repo @ '':'') e
                 \<in> set (emitted w w')))
   \<and> (pr_note_fails h pr w \<longrightarrow> \<not> pr_directory_fails h pr w \<longrightarrow>
      (\<exists>w' e. createNoteForPR h pr w
                 = (Inr (vault w (fileNameForPR (settings w) pr) = None), w')
             \<and> ConsoleError (''Error creating note for PR #'' @ show_nat (number pr) @ '':'') e
                 \<in> set (emitted w w')))"
proof (intro conjI impI)
  assume f: "repo_note_fails h repo w"
  define P where "P = fileNameForRepo (settings w) repo"
  obtain r w1 where t: "createNoteForRepo_try h repo P (adapter_exists w P) w = (r, w1)"
    by (cases "createNoteForRepo_try h repo P (adapter_exists w P) w") blast
  with f obtain e where e: "r = Inl e"
    by (cases r) (auto simp: repo_note_fails_def P_def Let_def)
  from createNoteForRepo_try_cases [OF t] obtain evs where evs: "log w1 = log w @ evs"
    by blast
  define w' where "w' = emit (RepoNote repo (vault w P = None))
                 (emit (ConsoleError (''Error creating note for '' @ name repo @ '':'') e) w1)"
  from t e have "createNoteForRepo h repo w = (vault w P = None, w')"
    by (simp add: createNoteForRepo_def P_def Let_def adapter_exists_def w'_def)
  moreover have "ConsoleError (''Error creating note for '' @ name repo @ '':'') e
                   \<in> set (emitted w w')"
    using evs by (simp add: emitted_def w'_def)
  ultimately show "\<exists>w' e. createNoteForRepo h repo w
                 = (vault w (fileNameForRepo (settings w) repo) = None, w')
             \<and> ConsoleError (''Error creating note for '' @ name repo @ '':'') e
                 \<in> set (emitted w w')"
    unfolding P_def by blast
next
  assume f: "pr_note_fails h pr w" and nd: "\<not> pr_directory_fails h pr w"
  define P where "P = fileNameForPR (settings w) pr"
  define D where "D = repoDir (settings w) pr"
  have PD: "P = D @ ''/'' @ (show_nat (number pr) @ ''_'' @ safePrTitle pr @ ''.md'')"
    by (simp add: P_def D_def fileNameForPR_def)
  obtain r0 w0 where d: "ensureDirectoryExists h D w = (r0, w0)"
    by (cases "ensureDirectoryExists h D w") blast
  with nd have r0: "r0 = Inr ()"
    by (cases r0) (auto simp: pr_directory_fails_def D_def)
  note dc = ensureDirs_cases [OF d [unfolded ensureDirectoryExists_def]]
  have same: "vault w0 P = vault w P"
    unfolding PD by (rule ensureDirectoryExists_below [OF d])
  obtain r w1 where t: "createNoteForPR_try h pr P (adapter_exists w0 P) w0 = (r, w1)"
    by (cases "createNoteForPR_try h pr P (adapter_exists w0 P) w0") blast
  with f d r0 obtain e where e: "r = Inl e"
    by (cases r) (auto simp: pr_note_fails_def P_def D_def Let_def)
  from createNoteForPR_try_cases [OF t] obtain evs where evs: "log w1 = log w0 @ evs"
    by blast
  define w' where "w' = emit (PRNote pr (vault w P = None))
     (emit (ConsoleError (''Error creating note for PR #'' @ show_nat (number pr) @ '':'') e) w1)"
  from t e d r0 same have "createNoteForPR h pr w = (Inr (vault w P = None), w')"
    by (simp add: createNoteForPR_def P_def D_def Let_def adapter_exists_def w'_def)
  moreover have "ConsoleError (''Error creating note for PR #'' @ show_nat (number pr) @ '':'') e
                   \<in> set (emitted w w')"
    using evs dc by (simp add: emitted_def w'_def)
  ultimately show "\<exists>w' e. createNoteForPR h pr w
                 = (Inr (vault w (fileNameForPR (settings w) pr) = None), w')
             \<and> ConsoleError (''Error creating note for PR #'' @ show_nat (number pr) @ '':'') e
                 \<in> set (emitted w w')"
    unfolding P_def by blast
qed

theorem failed_item_is_caught_witness:
  "repo_note_fails readonly_host demo_repo empty_world
   \<and> pr_note_fails readonly_host demo_pr empty_world
   \<and> \<not> pr_directory_fails readonly_host demo_pr empty_world
   \<and> fst (createNoteForRepo readonly_host demo_repo empty_world) = True
   \<and> fst (createNoteForPR readonly_host demo_pr empty_world) = Inr True"
proof -
  have a: "repo_note_fails readonly_host demo_repo empty_world"
    by code_simp
  have b: "pr_note_fails readonly_host demo_pr empty_world"
    by code_simp
  have n: "\<not> pr_directory_fails readonly_host demo_pr empty_world"
    by code_simp
  have c: "vault empty_world (fileNameForRepo (settings empty_world) demo_repo) = None"
    by code_simp
  have d: "vault empty_world (fileNameForPR (settings empty_world) demo_pr) = None"
    by code_simp
  from failed_item_is_caught [of readonly_host demo_repo empty_world demo_pr] a b n c d
  show ?thesis by auto
qed

section \<open>Tags\<close>

lemma lower_char_plain:
  "plain_char c \<Longrightarrow> lower_char c \<in> set tag_chars \<or> is_space (lower_char c)"
  unfolding plain_char_def lower_char_def upper_letters_def lower_letters_def tag_chars_def
    is_space_def
  by (elim disjE) auto

lemma lower_char_not_upper: "lower_char c \<notin> set upper_letters"
  unfolding lower_char_def upper_letters_def lower_letters_def
  by (auto split: option.splits if_splits)

lemma replace_space_runs_hyphen:
  "list_all (\<lambda>c. c \<in> set tag_chars \<or> is_space c) s \<Longrightarrow>
     list_all (\<lambda>c. c \<in> set tag_chars) (replace_space_runs ''-'' s)"
proof (induction "''-''" s rule: replace_space_runs.induct)
  case 1
  then show ?case by simp
next
  case (2 c cs)
  show ?case
  proof (cases "is_space c")
    case True
    from 2(3) have "list_all (\<lambda>c. c \<in> set tag_chars \<or> is_space c) (dropWhile is_space cs)"
      by (auto simp: list_all_iff dest: set_dropWhileD)
    with 2(1) True show ?thesis
      by (simp add: tag_chars_def)
  next
    case False
    with 2 show ?thesis by simp
  qed
qed

lemma replace_space_runs_no_space:
  "\<not> is_space r0 \<Longrightarrow> list_all (\<lambda>c. \<not> is_space c) (replace_space_runs [r0] s)"
  by (induction "[r0]" s rule: replace_space_runs.induct) auto

lemma replace_space_runs_keeps:
  "Q r0 \<Longrightarrow> list_all Q s \<Longrightarrow> list_all Q (replace_space_runs [r0] s)"
proof (induction "[r0]" s rule: replace_space_runs.induct)
  case 1
  then show ?case by simp
next
  case (2 c cs)
  show ?case
  proof (cases "is_space c")
    case True
    from 2(4) have "list_all Q (dropWhile is_space cs)"
      by (auto simp: list_all_iff dest: set_dropWhileD)
    with 2 True show ?thesis by simp
  next
    case False
    with 2 show ?thesis by simp
  qed
qed

lemma underscore_tag_char: "CHR ''_'' \<in> set tag_chars"
  by (simp add: tag_chars_def)

lemma normalizeTag_normalized: "normalized (normalizeTag t)"
  by (induction t)
     (auto simp: normalized_def normalizeTag_def replace_all_def toLowerCase_def
                 underscore_tag_char)

lemma normalized_append: "normalized (a @ b) = (normalized a \<and> normalized b)"
  by (simp add: normalized_def)

lemma prLabelTag_normalized:
  assumes "list_all plain_char l"
  shows "normalized (prLabelTag l)"
proof -
  from assms have "list_all (\<lambda>c. c \<in> set tag_chars \<or> is_space c) (toLowerCase l)"
    by (auto simp: list_all_iff toLowerCase_def dest: lower_char_plain)
  then have "normalized (replace_space_runs ''-'' (toLowerCase l))"
    unfolding normalized_def by (rule replace_space_runs_hyphen)
  moreover have "normalized ''github/pr-label/''"
    by (simp add: normalized_def tag_chars_def)
  ultimately show ?thesis
    by (simp only: prLabelTag_def normalized_append)
qed

text \<open>
  Claim C9. With the built-in template every tag written into the tag list is to be in
  lower case and of the class \<open>[a-z0-9/_-]\<close>, every other character replaced.
  \<open>createNoteForRepo\<close> does this through \<open>normalizeTag\<close>; \<open>createNoteForPR\<close> does not call
  \<open>normalizeTag\<close>. For the label \<open>type: bug\<close> it writes a tag that keeps the colon, where
  \<open>normalizeTag\<close> gives \<open>type__bug\<close>, and it writes the state as it was received.
\<close>

theorem pr_label_tag_not_normalized:
  "prTags demo_pr = [''type/github-pr'', ''github/pr-state/open'', ''github/pr-label/type:-bug'']
   \<and> \<not> list_all normalized (prTags demo_pr)
   \<and> normalizeTag ''type: bug'' = ''type__bug''
   \<and> \<not> list_all normalized (prTags (demo_pr\<lparr>state := ''OPEN'', labels := []\<rparr>))"
  by code_simp

text \<open>
  What does hold of the tags. Every tag of a starred repository consists of characters
  of the class. A label tag of a pull request has no white space and no capital letter,
  and the tags of a pull request are of the class when its state is and its labels
  consist of letters, digits, \<open>/\<close>, \<open>_\<close>, \<open>-\<close> and white space.
\<close>

theorem tags_normalized:
  "list_all normalized (starTags repo)
   \<and> list_all (\<lambda>c. \<not> is_space c \<and> c \<notin> set upper_letters) (prLabelTag l)
   \<and> (normalized (state pr) \<longrightarrow> list_all (list_all plain_char) (labels pr) \<longrightarrow>
        list_all normalized (prTags pr))"
proof (intro conjI impI)
  have "normalized ''type/github-star''" "normalized ''github/language/''"
    "normalized ''github/topic/''"
    by (simp_all add: normalized_def tag_chars_def)
  then have "normalized ''type/github-star''"
    "normalized (''github/language/'' @ normalizeTag x)"
    "normalized (''github/topic/'' @ normalizeTag x)" for x
    by (simp_all only: normalized_append normalizeTag_normalized)
  then show "list_all normalized (starTags repo)"
    unfolding starTags_def list_all_iff
    by (auto simp del: append.simps)
next
  have "list_all (\<lambda>c. c \<notin> set upper_letters) (toLowerCase l)"
    by (simp add: list_all_iff toLowerCase_def lower_char_not_upper)
  then have "list_all (\<lambda>c. c \<notin> set upper_letters) (replace_space_runs ''-'' (toLowerCase l))"
    by (intro replace_space_runs_keeps) (simp_all add: upper_letters_def)
  moreover have "list_all (\<lambda>c. \<not> is_space c) (replace_space_runs ''-'' (toLowerCase l))"
    by (rule replace_space_runs_no_space) (simp add: is_space_def)
  moreover have "list_all (\<lambda>c. \<not> is_space c \<and> c \<notin> set upper_letters) ''github/pr-label/''"
    by (simp add: is_space_def upper_letters_def)
  ultimately show "list_all (\<lambda>c. \<not> is_space c \<and> c \<notin> set upper_letters) (prLabelTag l)"
    unfolding prLabelTag_def list_all_iff
    by (auto simp del: append.simps)
next
  assume s: "normalized (state pr)" and ls: "list_all (list_all plain_char) (labels pr)"
  have "normalized ''type/github-pr''" "normalized ''github/pr-state/''"
    "normalized ''github/pr-draft''" "normalized ''github/pr-merged''"
    by (simp_all add: normalized_def tag_chars_def)
  moreover from ls have "list_all normalized (map prLabelTag (labels pr))"
    by (auto simp: list_all_iff intro: prLabelTag_normalized)
  moreover from s have "normalized (''github/pr-state/'' @ state pr)"
    by (simp only: normalized_append \<open>normalized ''github/pr-state/''\<close>)
  ultimately show "list_all normalized (prTags pr)"
    unfolding prTags_def list_all_iff
    by (auto simp del: append.simps)
qed

theorem tags_normalized_witness:
  "normalized (state (demo_pr\<lparr>labels := [''Good first issue'']\<rparr>))
   \<and> list_all (list_all plain_char) (labels (demo_pr\<lparr>labels := [''Good first issue'']\<rparr>))
   \<and> list_all normalized (prTags (demo_pr\<lparr>labels := [''Good first issue'']\<rparr>))"
proof -
  have a: "normalized (state (demo_pr\<lparr>labels := [''Good first issue'']\<rparr>))"
    by code_simp
  have b: "list_all (list_all plain_char) (labels (demo_pr\<lparr>labels := [''Good first issue'']\<rparr>))"
    by code_simp
  from tags_normalized [of demo_repo "''x''" "demo_pr\<lparr>labels := [''Good first issue'']\<rparr>"] a b
  show ?thesis by blast
qed
section \<open>The body of a note\<close>

lemma createNoteForRepo_creates:
  assumes none: "vault w P = None"
    and P: "P = fileNameForRepo (settings w) repo"
    and render: "renderTemplate h (handlebarsStar h) (useDefaultTemplateStar (settings w))
                   (templatePathStar (settings w)) defaultTemplateStar repo w = (Inr content, w1)"
    and ok: "faults h (VaultCreate P) = None"
  shows "\<exists>fm. vault (snd (createNoteForRepo h repo w)) P
               = Some (File \<lparr>frontmatter = fm, body = content\<rparr>)"
proof -
  note a = renderTemplate_cases [OF render]
  define w2 where "w2 = w1\<lparr>vault := (vault w1)(P \<mapsto> File \<lparr>frontmatter = Map.empty, body = content\<rparr>)\<rparr>"
  from a none ok have c: "vault_create h P content w1 = (Inr (), w2)"
    by (simp add: vault_create_def adapter_exists_def w2_def)
  from none render c have f: "createNoteForRepo_file h repo P (adapter_exists w P) w = (Inr (), w2)"
    by (simp add: createNoteForRepo_file_def adapter_exists_def)
  obtain r w3 where t: "createNoteForRepo_try h repo P (adapter_exists w P) w = (r, w3)"
    by (cases "createNoteForRepo_try h repo P (adapter_exists w P) w") blast
  have "\<exists>fm. vault w3 P = Some (File \<lparr>frontmatter = fm, body = content\<rparr>)"
  proof (cases "useDefaultTemplateStar (settings w2)")
    case False
    with t f have "w3 = w2" by (simp add: createNoteForRepo_try_def)
    then show ?thesis by (simp add: w2_def)
  next
    case True
    with t f have "processFrontMatter h P (starFrontMatter h repo) w2 = (r, w3)"
      by (simp add: createNoteForRepo_try_def)
    from processFrontMatter_cases [OF this] show ?thesis
      by (auto simp: w2_def)
  qed
  moreover from t have "vault (snd (createNoteForRepo h repo w)) = vault w3"
    by (simp add: createNoteForRepo_def P Let_def split: sum.splits)
  ultimately show ?thesis by simp
qed

text \<open>
  Claim C5. Let \<open>P\<close> be the path of the note of a record. If nothing exists at \<open>P\<close>, the
  template renders to a content and \<open>vault.create\<close> does not throw, then after the call a
  file exists at \<open>P\<close> and its body is that content. If a file exists at \<open>P\<close>, then after the
  call the vault is the same but for the frontmatter of that file, whose body is the one
  it had; with a template of the user's the vault is the same altogether. The body of an
  existing note of a pull request is kept as well.
\<close>

theorem note_body_preserved:
  "(vault w (fileNameForRepo (settings w) repo) = None \<longrightarrow>
      renderTemplate h (handlebarsStar h) (useDefaultTemplateStar (settings w))
        (templatePathStar (settings w)) defaultTemplateStar repo w = (Inr content, w1) \<longrightarrow>
      faults h (VaultCreate (fileNameForRepo (settings w) repo)) = None \<longrightarrow>
      (\<exists>fm. vault (snd (createNoteForRepo h repo w)) (fileNameForRepo (settings w) repo)
               = Some (File \<lparr>frontmatter = fm, body = content\<rparr>)))
   \<and> (vault w (fileNameForRepo (settings w) repo) = Some (File n) \<longrightarrow>
      (\<exists>fm. vault (snd (createNoteForRepo h repo w))
               = (vault w)(fileNameForRepo (settings w) repo \<mapsto> File (n\<lparr>frontmatter := fm\<rparr>)))
      \<and> (\<not> useDefaultTemplateStar (settings w) \<longrightarrow>
            vault (snd (createNoteForRepo h repo w)) = vault w))
   \<and> (vault w (fileNameForPR (settings w) pr) = Some (File n) \<longrightarrow>
      (\<exists>fm. vault (snd (createNoteForPR h pr w)) (fileNameForPR (settings w) pr)
               = Some (File (n\<lparr>frontmatter := fm\<rparr>))))"
proof (intro conjI impI)
  assume "vault w (fileNameForRepo (settings w) repo) = None"
    and "renderTemplate h (handlebarsStar h) (useDefaultTemplateStar (settings w))
        (templatePathStar (settings w)) defaultTemplateStar repo w = (Inr content, w1)"
    and "faults h (VaultCreate (fileNameForRepo (settings w) repo)) = None"
  then show "\<exists>fm. vault (snd (createNoteForRepo h repo w)) (fileNameForRepo (settings w) repo)
               = Some (File \<lparr>frontmatter = fm, body = content\<rparr>)"
    by (rule createNoteForRepo_creates [OF _ refl])
next
  assume n: "vault w (fileNameForRepo (settings w) repo) = Some (File n)"
  define P where "P = fileNameForRepo (settings w) repo"
  obtain b w' where c: "createNoteForRepo h repo w = (b, w')"
    by (cases "createNoteForRepo h repo w") blast
  note a = createNoteForRepo_cases [OF c, folded P_def]
  from a n obtain fm where fm: "vault w' P = Some (File (n\<lparr>frontmatter := fm\<rparr>))"
    unfolding P_def by blast
  with a have "vault w' = (vault w)(P \<mapsto> File (n\<lparr>frontmatter := fm\<rparr>))"
    by (intro ext) simp
  with c show "\<exists>fm. vault (snd (createNoteForRepo h repo w))
               = (vault w)(fileNameForRepo (settings w) repo \<mapsto> File (n\<lparr>frontmatter := fm\<rparr>))"
    unfolding P_def by auto
next
  assume n: "vault w (fileNameForRepo (settings w) repo) = Some (File n)"
    and u: "\<not> useDefaultTemplateStar (settings w)"
  define P where "P = fileNameForRepo (settings w) repo"
  obtain r w1 where t: "createNoteForRepo_try h repo P (adapter_exists w P) w = (r, w1)"
    by (cases "createNoteForRepo_try h repo P (adapter_exists w P) w") blast
  from createNoteForRepo_try_cases [OF t] n u have "vault w1 = vault w"
    by (simp add: P_def)
  moreover from t have "vault (snd (createNoteForRepo h repo w)) = vault w1"
    by (simp add: createNoteForRepo_def P_def Let_def split: sum.splits)
  ultimately show "vault (snd (createNoteForRepo h repo w)) = vault w" by simp
next
  assume n: "vault w (fileNameForPR (settings w) pr) = Some (File n)"
  obtain r w' where c: "createNoteForPR h pr w = (r, w')"
    by (cases "createNoteForPR h pr w") blast
  from createNoteForPR_cases [OF c] n c
  show "\<exists>fm. vault (snd (createNoteForPR h pr w)) (fileNameForPR (settings w) pr)
               = Some (File (n\<lparr>frontmatter := fm\<rparr>))"
    by simp
qed

theorem note_body_preserved_witness:
  "(\<exists>fm. vault (snd (createNoteForRepo quiet_host demo_repo empty_world)) ''gh/bob-demo.md''
            = Some (File \<lparr>frontmatter = fm, body = ''# {{ name }}'' @ [newline, newline]\<rparr>))
   \<and> (\<exists>fm. vault (snd (createNoteForRepo quiet_host demo_repo edited_world))
            = (vault edited_world)(''gh/bob-demo.md'' \<mapsto> File (edited_note\<lparr>frontmatter := fm\<rparr>)))"
proof -
  have p: "fileNameForRepo (settings empty_world) demo_repo = ''gh/bob-demo.md''"
    "fileNameForRepo (settings edited_world) demo_repo = ''gh/bob-demo.md''"
    by code_simp+
  have a: "vault empty_world ''gh/bob-demo.md'' = None"
    by code_simp
  have b: "renderTemplate quiet_host (handlebarsStar quiet_host)
             (useDefaultTemplateStar (settings empty_world))
             (templatePathStar (settings empty_world)) defaultTemplateStar demo_repo empty_world
           = (Inr (''# {{ name }}'' @ [newline, newline]), empty_world)"
    by (simp add: renderTemplate_def readTemplate_def empty_world_def alice_settings_def
          DEFAULT_SETTINGS_def quiet_host_def defaultTemplateStar_def)
  have c: "faults quiet_host (VaultCreate ''gh/bob-demo.md'') = None"
    by (simp add: quiet_host_def)
  have d: "vault edited_world ''gh/bob-demo.md'' = Some (File edited_note)"
    by (simp add: edited_world_def)
  from note_body_preserved [where w = empty_world and repo = demo_repo and h = quiet_host
         and content = "''# {{ name }}'' @ [newline, newline]" and ?w1.0 = empty_world
         and n = edited_note and pr = demo_pr] a b c
  have 1: "\<exists>fm. vault (snd (createNoteForRepo quiet_host demo_repo empty_world)) ''gh/bob-demo.md''
            = Some (File \<lparr>frontmatter = fm, body = ''# {{ name }}'' @ [newline, newline]\<rparr>)"
    unfolding p by blast
  from note_body_preserved [where w = edited_world and repo = demo_repo and h = quiet_host
         and content = "''''" and ?w1.0 = edited_world and n = edited_note and pr = demo_pr] d
  have 2: "\<exists>fm. vault (snd (createNoteForRepo quiet_host demo_repo edited_world))
            = (vault edited_world)(''gh/bob-demo.md'' \<mapsto> File (edited_note\<lparr>frontmatter := fm\<rparr>))"
    unfolding p by blast
  from 1 2 show ?thesis by blast
qed
section \<open>The watermark\<close>

text \<open>
  Claim C4. Take a run of \<open>fetchStars\<close> or \<open>fetchPullRequests\<close> that is enabled and
  configured. If its \<open>try\<close> block comes to the end of the page loop, the run returns with
  the watermark of its entity type set to the reading of the clock, whatever the items
  were, with every other setting as it was, and with these settings saved. If an error
  leaves the \<open>try\<close> block, the run returns after writing the error to the console and
  showing it in a notification, and its settings, the watermark among them, are the ones
  it started with.
\<close>

theorem watermark_update:
  assumes "syncEnabled (settings w)" and "settingsAreValid (settings w)"
  shows "(\<forall>n w1. fetchStars_try fuel h w = Some (Inr n, w1) \<longrightarrow>
            (\<exists>w'. fetchStars fuel h w = Some w'
                 \<and> settings w' = (settings w)\<lparr>lastFetchDate := nowISO h\<rparr>
                 \<and> SaveData (settings w') \<in> set (emitted w w')))
       \<and> (\<forall>e w1. fetchStars_try fuel h w = Some (Inl e, w1) \<longrightarrow>
            fetchStars fuel h w
              = Some (emit (Notice (''Error fetching GitHub stars: '' @ message e))
                        (emit (ConsoleError ''Error fetching GitHub stars:'' e) w1))
            \<and> settings w1 = settings w)
       \<and> (\<forall>n w1. fetchPullRequests_try fuel h w = Some (Inr n, w1) \<longrightarrow>
            (\<exists>w'. fetchPullRequests fuel h w = Some w'
                 \<and> settings w' = (settings w)\<lparr>lastPRFetchDate := nowISO h\<rparr>
                 \<and> SaveData (settings w') \<in> set (emitted w w')))
       \<and> (\<forall>e w1. fetchPullRequests_try fuel h w = Some (Inl e, w1) \<longrightarrow>
            fetchPullRequests fuel h w
              = Some (emit (Notice (''Error fetching pull requests: '' @ message e))
                        (emit (ConsoleError ''Error fetching pull requests:'' e) w1))
            \<and> settings w1 = settings w)"
proof (intro conjI allI impI)
  fix n w1
  assume t: "fetchStars_try fuel h w = Some (Inr n, w1)"
  from fetchStars_try_grows [OF t] obtain evs
    where s: "settings w1 = settings w" and l: "log w1 = log w @ evs"
    by (auto simp: grows_def)
  define w2 where "w2 = saveSettings (w1\<lparr>settings := (settings w1)\<lparr>lastFetchDate := nowISO h\<rparr>\<rparr>)"
  define w' where "w' = (if n \<noteq> 0
                      then emit (Notice (''Total '' @ show_nat n @ '' GitHub stars'')) w2
                      else w2)"
  from assms t have "fetchStars fuel h w = Some w'"
    by (simp add: fetchStars_def w'_def w2_def Let_def)
  moreover have "settings w' = (settings w)\<lparr>lastFetchDate := nowISO h\<rparr>"
    using s by (simp add: w'_def w2_def saveSettings_def)
  moreover have "SaveData ((settings w)\<lparr>lastFetchDate := nowISO h\<rparr>) \<in> set (emitted w w')"
    using s l by (simp add: w'_def w2_def saveSettings_def emitted_def)
  ultimately show "\<exists>w'. fetchStars fuel h w = Some w'
                 \<and> settings w' = (settings w)\<lparr>lastFetchDate := nowISO h\<rparr>
                 \<and> SaveData (settings w') \<in> set (emitted w w')"
    by auto
next
  fix e w1
  assume t: "fetchStars_try fuel h w = Some (Inl e, w1)"
  with assms show "fetchStars fuel h w
              = Some (emit (Notice (''Error fetching GitHub stars: '' @ message e))
                        (emit (ConsoleError ''Error fetching GitHub stars:'' e) w1))"
    by (simp add: fetchStars_def)
  from fetchStars_try_grows [OF t] show "settings w1 = settings w"
    by (simp add: grows_def)
next
  fix n w1
  assume t: "fetchPullRequests_try fuel h w = Some (Inr n, w1)"
  from fetchPullRequests_try_grows [OF t] obtain evs
    where s: "settings w1 = settings w" and l: "log w1 = log w @ evs"
    by (auto simp: grows_def)
  define w2 where "w2 = saveSettings (w1\<lparr>settings := (settings w1)\<lparr>lastPRFetchDate := nowISO h\<rparr>\<rparr>)"
  define w' where "w' = (if n \<noteq> 0
                      then emit (Notice (''Total '' @ show_nat n @ '' pull requests'')) w2
                      else w2)"
  from assms t have "fetchPullRequests fuel h w = Some w'"
    by (simp add: fetchPullRequests_def w'_def w2_def Let_def)
  moreover have "settings w' = (settings w)\<lparr>lastPRFetchDate := nowISO h\<rparr>"
    using s by (simp add: w'_def w2_def saveSettings_def)
  moreover have "SaveData ((settings w)\<lparr>lastPRFetchDate := nowISO h\<rparr>) \<in> set (emitted w w')"
    using s l by (simp add: w'_def w2_def saveSettings_def emitted_def)
  ultimately show "\<exists>w'. fetchPullRequests fuel h w = Some w'
                 \<and> settings w' = (settings w)\<lparr>lastPRFetchDate := nowISO h\<rparr>
                 \<and> SaveData (settings w') \<in> set (emitted w w')"
    by auto
next
  fix e w1
  assume t: "fetchPullRequests_try fuel h w = Some (Inl e, w1)"
  with assms show "fetchPullRequests fuel h w
              = Some (emit (Notice (''Error fetching pull requests: '' @ message e))
                        (emit (ConsoleError ''Error fetching pull requests:'' e) w1))"
    by (simp add: fetchPullRequests_def)
  from fetchPullRequests_try_grows [OF t] show "settings w1 = settings w"
    by (simp add: grows_def)
qed

theorem watermark_update_witness:
  "syncEnabled (settings empty_world) \<and> settingsAreValid (settings empty_world)
   \<and> (\<exists>w'. fetchStars 2 quiet_host empty_world = Some w'
          \<and> lastFetchDate (settings w') = ''2024-05-06T07:08:09.000Z'')
   \<and> (\<exists>w'. fetchPullRequests 2 quiet_host empty_world = Some w'
          \<and> lastPRFetchDate (settings w') = ''2024-05-06T07:08:09.000Z'')
   \<and> (\<exists>w'. fetchStars 2 offline_host empty_world = Some w'
          \<and> lastFetchDate (settings w') = '''')
   \<and> (\<exists>w'. fetchPullRequests 2 offline_host empty_world = Some w'
          \<and> lastPRFetchDate (settings w') = '''')"
proof -
  have a: "syncEnabled (settings empty_world)" and b: "settingsAreValid (settings empty_world)"
    by code_simp+
  have "map_option fst (fetchStars_try 2 quiet_host empty_world) = Some (Inr 1)"
    by code_simp
  then obtain w1 where s: "fetchStars_try 2 quiet_host empty_world = Some (Inr 1, w1)"
    by (cases "fetchStars_try 2 quiet_host empty_world") (auto simp: prod_eq_iff)
  have "map_option fst (fetchPullRequests_try 2 quiet_host empty_world) = Some (Inr 1)"
    by code_simp
  then obtain w2 where p: "fetchPullRequests_try 2 quiet_host empty_world = Some (Inr 1, w2)"
    by (cases "fetchPullRequests_try 2 quiet_host empty_world") (auto simp: prod_eq_iff)
  have "map_option fst (fetchStars_try 2 offline_host empty_world)
          = Some (Inl (Error ''net::ERR_INTERNET_DISCONNECTED''))"
    by code_simp
  then obtain w3 where so: "fetchStars_try 2 offline_host empty_world
          = Some (Inl (Error ''net::ERR_INTERNET_DISCONNECTED''), w3)"
    by (cases "fetchStars_try 2 offline_host empty_world") (auto simp: prod_eq_iff)
  have "map_option fst (fetchPullRequests_try 2 offline_host empty_world)
          = Some (Inl (Error ''net::ERR_INTERNET_DISCONNECTED''))"
    by code_simp
  then obtain w4 where po: "fetchPullRequests_try 2 offline_host empty_world
          = Some (Inl (Error ''net::ERR_INTERNET_DISCONNECTED''), w4)"
    by (cases "fetchPullRequests_try 2 offline_host empty_world") (auto simp: prod_eq_iff)
  have n: "nowISO quiet_host = ''2024-05-06T07:08:09.000Z''"
    by (simp add: quiet_host_def)
  have e: "lastFetchDate (settings empty_world) = ''''"
    "lastPRFetchDate (settings empty_world) = ''''"
    by (simp_all add: empty_world_def alice_settings_def DEFAULT_SETTINGS_def)
  note q = watermark_update [OF a b, of 2 quiet_host]
  note o = watermark_update [OF a b, of 2 offline_host]
  from q [THEN conjunct1, rule_format, OF s] obtain x1
    where "fetchStars 2 quiet_host empty_world = Some x1"
      and "settings x1 = (settings empty_world)\<lparr>lastFetchDate := nowISO quiet_host\<rparr>"
    by blast
  with n have 1: "\<exists>w'. fetchStars 2 quiet_host empty_world = Some w'
          \<and> lastFetchDate (settings w') = ''2024-05-06T07:08:09.000Z''"
    by simp
  from q [THEN conjunct2, THEN conjunct2, THEN conjunct1, rule_format, OF p] obtain x2
    where "fetchPullRequests 2 quiet_host empty_world = Some x2"
      and "settings x2 = (settings empty_world)\<lparr>lastPRFetchDate := nowISO quiet_host\<rparr>"
    by blast
  with n have 2: "\<exists>w'. fetchPullRequests 2 quiet_host empty_world = Some w'
          \<and> lastPRFetchDate (settings w') = ''2024-05-06T07:08:09.000Z''"
    by simp
  from o [THEN conjunct2, THEN conjunct1, rule_format, OF so] e
  have 3: "\<exists>w'. fetchStars 2 offline_host empty_world = Some w'
          \<and> lastFetchDate (settings w') = ''''"
    by simp
  from o [THEN conjunct2, THEN conjunct2, THEN conjunct2, rule_format, OF po] e
  have 4: "\<exists>w'. fetchPullRequests 2 offline_host empty_world = Some w'
          \<and> lastPRFetchDate (settings w') = ''''"
    by simp
  from a b 1 2 3 4 show ?thesis by (intro conjI)
qed
section \<open>The incremental fetch\<close>

lemma fetchStars_try_stops:
  assumes "lastFetchDate (settings w) \<noteq> ''''" and "fetchStars_try fuel h w = Some (r, w1)"
  shows "\<exists>evs. log w1 = log w @ evs \<and> stops_at_existing evs"
proof -
  obtain r0 w0 where d: "ensureTargetDirectoryExists h w = (r0, w0)"
    by (cases "ensureTargetDirectoryExists h w") blast
  note c = ensureDirs_cases [OF d [unfolded ensureTargetDirectoryExists_def]]
  show ?thesis
  proof (cases r0)
    case (Inl e)
    with assms d c show ?thesis by (simp add: fetchStars_try_def)
  next
    case (Inr u)
    with assms d c have "fetchStars_pages fuel h False 1 0 w0 = Some (r, w1)"
      by (simp add: fetchStars_try_def)
    from fetchStars_pages_stop [OF this] c show ?thesis by simp
  qed
qed

lemma fetchPullRequests_try_stops:
  assumes "lastPRFetchDate (settings w) \<noteq> ''''" and "fetchPullRequests_try fuel h w = Some (r, w1)"
  shows "\<exists>evs. log w1 = log w @ evs \<and> stops_at_existing evs"
proof -
  obtain r0 w0 where d: "ensurePRDirectoryExists h w = (r0, w0)"
    by (cases "ensurePRDirectoryExists h w") blast
  note c = ensureDirs_cases [OF d [unfolded ensurePRDirectoryExists_def]]
  show ?thesis
  proof (cases r0)
    case (Inl e)
    with assms d c show ?thesis by (simp add: fetchPullRequests_try_def)
  next
    case (Inr u)
    with assms d c have "fetchPullRequests_pages fuel h False 1 0 w0 = Some (r, w1)"
      by (simp add: fetchPullRequests_try_def)
    from fetchPullRequests_pages_stop [OF this] c show ?thesis by simp
  qed
qed

lemma fetchStars_stops:
  assumes "lastFetchDate (settings w) \<noteq> ''''" and "fetchStars fuel h w = Some w'"
  shows "stops_at_existing (emitted w w')"
proof (cases "syncEnabled (settings w) \<and> settingsAreValid (settings w)")
  case False
  with assms(2) have "\<exists>msg. w' = emit (Notice msg) w"
    by (auto simp: fetchStars_def split: if_splits)
  then show ?thesis by (auto simp: emitted_def)
next
  case True
  with assms(2) obtain r w1 where t: "fetchStars_try fuel h w = Some (r, w1)"
    by (cases "fetchStars_try fuel h w") (auto simp: fetchStars_def)
  from fetchStars_try_stops [OF assms(1) t] obtain evs
    where e: "log w1 = log w @ evs" "stops_at_existing evs"
    by blast
  from True assms(2) t obtain tl
    where "log w' = log w1 @ tl" "list_all (\<lambda>e. \<not> is_fetch e) tl"
    by (cases r) (auto simp: fetchStars_def saveSettings_def Let_def split: if_splits)
  with e have "log w' = log w @ evs @ tl" "stops_at_existing (evs @ tl)"
    by (simp_all add: stops_append_quiet)
  then show ?thesis by (simp add: emitted_def)
qed

lemma fetchPullRequests_stops:
  assumes "lastPRFetchDate (settings w) \<noteq> ''''" and "fetchPullRequests fuel h w = Some w'"
  shows "stops_at_existing (emitted w w')"
proof (cases "syncEnabled (settings w) \<and> settingsAreValid (settings w)")
  case False
  with assms(2) have "\<exists>msg. w' = emit (Notice msg) w"
    by (auto simp: fetchPullRequests_def split: if_splits)
  then show ?thesis by (auto simp: emitted_def)
next
  case True
  with assms(2) obtain r w1 where t: "fetchPullRequests_try fuel h w = Some (r, w1)"
    by (cases "fetchPullRequests_try fuel h w") (auto simp: fetchPullRequests_def)
  from fetchPullRequests_try_stops [OF assms(1) t] obtain evs
    where e: "log w1 = log w @ evs" "stops_at_existing evs"
    by blast
  from True assms(2) t obtain tl
    where "log w' = log w1 @ tl" "list_all (\<lambda>e. \<not> is_fetch e) tl"
    by (cases r) (auto simp: fetchPullRequests_def saveSettings_def Let_def split: if_splits)
  with e have "log w' = log w @ evs @ tl" "stops_at_existing (evs @ tl)"
    by (simp_all add: stops_append_quiet)
  then show ?thesis by (simp add: emitted_def)
qed

text \<open>
  Claim C1. Take a run of \<open>fetchStars\<close> that starts with a watermark that is not empty,
  and an item for which \<open>createNoteForRepo\<close> returned false. Then in what the run did
  after that return there is no materialization of an item and no request of a page:
  the run stopped at the first such item. The same holds of \<open>fetchPullRequests\<close> and
  \<open>createNoteForPR\<close>. And the page loop does stop there: when the page it requests holds an
  item that has a note, the loop returns within this iteration, whatever fuel is left.
\<close>

theorem incremental_stop:
  "(lastFetchDate (settings w) \<noteq> '''' \<longrightarrow> fetchStars fuel h w = Some w' \<longrightarrow>
      emitted w w' = pre @ RepoNote repo False # post \<longrightarrow>
      list_all (\<lambda>e. \<not> is_fetch e) post)
   \<and> (lastPRFetchDate (settings w) \<noteq> '''' \<longrightarrow> fetchPullRequests fuel h w = Some w' \<longrightarrow>
      emitted w w' = pre @ PRNote pr False # post \<longrightarrow>
      list_all (\<lambda>e. \<not> is_fetch e) post)
   \<and> (requestStars h (starredParams (settings w) page) = Inr stars \<longrightarrow> repo \<in> set stars \<longrightarrow>
      vault w (fileNameForRepo (settings w) repo) \<noteq> None \<longrightarrow>
      fetchStars_pages (Suc f) h False page n w \<noteq> None)
   \<and> (requestPRs h (pullRequestsParams (settings w) page) = Inr prs \<longrightarrow> pr \<in> set prs \<longrightarrow>
      vault w (fileNameForPR (settings w) pr) \<noteq> None \<longrightarrow>
      fetchPullRequests_pages (Suc f) h False page n w \<noteq> None)"
proof (intro conjI impI)
  assume "lastFetchDate (settings w) \<noteq> ''''" and "fetchStars fuel h w = Some w'"
    and e: "emitted w w' = pre @ RepoNote repo False # post"
  then have "stops_at_existing (emitted w w')"
    by (intro fetchStars_stops)
  from stops_at_existing_after [OF this e] show "list_all (\<lambda>e. \<not> is_fetch e) post"
    by simp
next
  assume "lastPRFetchDate (settings w) \<noteq> ''''" and "fetchPullRequests fuel h w = Some w'"
    and e: "emitted w w' = pre @ PRNote pr False # post"
  then have "stops_at_existing (emitted w w')"
    by (intro fetchPullRequests_stops)
  from stops_at_existing_after [OF this e] show "list_all (\<lambda>e. \<not> is_fetch e) post"
    by simp
next
  assume "requestStars h (starredParams (settings w) page) = Inr stars" and "repo \<in> set stars"
    and "vault w (fileNameForRepo (settings w) repo) \<noteq> None"
  then show "fetchStars_pages (Suc f) h False page n w \<noteq> None"
    by (rule fetchStars_pages_existing)
next
  assume "requestPRs h (pullRequestsParams (settings w) page) = Inr prs" and "pr \<in> set prs"
    and "vault w (fileNameForPR (settings w) pr) \<noteq> None"
  then show "fetchPullRequests_pages (Suc f) h False page n w \<noteq> None"
    by (rule fetchPullRequests_pages_existing)
qed

theorem incremental_stop_witness:
  "lastFetchDate (settings synced_world) \<noteq> ''''
   \<and> lastPRFetchDate (settings synced_world) \<noteq> ''''
   \<and> (\<exists>w'. fetchStars 3 three_stars_host synced_world = Some w'
          \<and> emitted synced_world w'
              = [HttpGet (starredParams (settings synced_world) 1),
                 RepoNote (demo_repo\<lparr>full_name := ''bob/new''\<rparr>) True]
                @ RepoNote demo_repo False
                # [Notice ''Fetched 1 GitHub stars'',
                   SaveData ((settings synced_world)\<lparr>lastFetchDate := nowISO three_stars_host\<rparr>),
                   Notice ''Total 1 GitHub stars''])
   \<and> (\<exists>w'. fetchPullRequests 3 three_stars_host synced_world = Some w'
          \<and> emitted synced_world w'
              = [HttpGet (pullRequestsParams (settings synced_world) 1)]
                @ PRNote demo_pr False
                # [SaveData ((settings synced_world)\<lparr>lastPRFetchDate := nowISO three_stars_host\<rparr>)])
   \<and> list_all (\<lambda>e. \<not> is_fetch e)
        [Notice ''Fetched 1 GitHub stars'',
         SaveData ((settings synced_world)\<lparr>lastFetchDate := nowISO three_stars_host\<rparr>),
         Notice ''Total 1 GitHub stars'']
   \<and> list_all (\<lambda>e. \<not> is_fetch e)
        [SaveData ((settings synced_world)\<lparr>lastPRFetchDate := nowISO three_stars_host\<rparr>)]
   \<and> fetchStars_pages (Suc 0) three_stars_host False 1 0 synced_world \<noteq> None
   \<and> fetchPullRequests_pages (Suc 0) three_stars_host False 1 0 synced_world \<noteq> None"
proof -
  have a: "lastFetchDate (settings synced_world) \<noteq> ''''"
    and b: "lastPRFetchDate (settings synced_world) \<noteq> ''''"
    by code_simp+
  have "map_option (emitted synced_world) (fetchStars 3 three_stars_host synced_world)
          = Some ([HttpGet (starredParams (settings synced_world) 1),
                 RepoNote (demo_repo\<lparr>full_name := ''bob/new''\<rparr>) True]
                @ RepoNote demo_repo False
                # [Notice ''Fetched 1 GitHub stars'',
                   SaveData ((settings synced_world)\<lparr>lastFetchDate := nowISO three_stars_host\<rparr>),
                   Notice ''Total 1 GitHub stars''])"
    by code_simp
  then obtain ws where s: "fetchStars 3 three_stars_host synced_world = Some ws"
    and es: "emitted synced_world ws
              = [HttpGet (starredParams (settings synced_world) 1),
                 RepoNote (demo_repo\<lparr>full_name := ''bob/new''\<rparr>) True]
                @ RepoNote demo_repo False
                # [Notice ''Fetched 1 GitHub stars'',
                   SaveData ((settings synced_world)\<lparr>lastFetchDate := nowISO three_stars_host\<rparr>),
                   Notice ''Total 1 GitHub stars'']"
    by (cases "fetchStars 3 three_stars_host synced_world") simp_all
  have "map_option (emitted synced_world) (fetchPullRequests 3 three_stars_host synced_world)
          = Some ([HttpGet (pullRequestsParams (settings synced_world) 1)]
                @ PRNote demo_pr False
                # [SaveData ((settings synced_world)\<lparr>lastPRFetchDate := nowISO three_stars_host\<rparr>)])"
    by code_simp
  then obtain wp where p: "fetchPullRequests 3 three_stars_host synced_world = Some wp"
    and ep: "emitted synced_world wp
              = [HttpGet (pullRequestsParams (settings synced_world) 1)]
                @ PRNote demo_pr False
                # [SaveData ((settings synced_world)\<lparr>lastPRFetchDate := nowISO three_stars_host\<rparr>)]"
    by (cases "fetchPullRequests 3 three_stars_host synced_world") simp_all
  have rs: "requestStars three_stars_host (starredParams (settings synced_world) 1)
              = Inr [demo_repo\<lparr>full_name := ''bob/new''\<rparr>, demo_repo,
                     demo_repo\<lparr>full_name := ''bob/old''\<rparr>]"
    and rp: "requestPRs three_stars_host (pullRequestsParams (settings synced_world) 1)
              = Inr [demo_pr]"
    by (simp_all add: three_stars_host_def quiet_host_def starredParams_def
          pullRequestsParams_def)
  have ms: "demo_repo \<in> set [demo_repo\<lparr>full_name := ''bob/new''\<rparr>, demo_repo,
                               demo_repo\<lparr>full_name := ''bob/old''\<rparr>]"
    and mp: "demo_pr \<in> set [demo_pr]"
    by simp_all
  have vs: "vault synced_world (fileNameForRepo (settings synced_world) demo_repo) \<noteq> None"
    and vp: "vault synced_world (fileNameForPR (settings synced_world) demo_pr) \<noteq> None"
    by code_simp+
  note t = incremental_stop [where h = three_stars_host and w = synced_world]
  note 1 = t [THEN conjunct1, rule_format, OF a s es]
  note 2 = t [THEN conjunct2, THEN conjunct1, rule_format, OF b p ep]
  note 3 = t [THEN conjunct2, THEN conjunct2, THEN conjunct1, rule_format, OF rs ms vs,
              where f = 0 and n = 0]
  note 4 = t [THEN conjunct2, THEN conjunct2, THEN conjunct2, rule_format, OF rp mp vp,
              where f = 0 and n = 0]
  from a b s es p ep 1 2 3 4 show ?thesis
    by (intro conjI exI [of _ ws] exI [of _ wp])
qed

section \<open>The first fetch\<close>

text \<open>
  Claim C2. Take a run of \<open>fetchStars\<close> that is enabled and configured, whose watermark
  is empty and whose target directory is there or can be made. Let the remote answer
  the pages 1, 2, ... with the lists of \<open>pages\<close>, every one of 100 items but the last.
  Then the run returns, and what it fetched is exactly this: page 1 requested and every
  item of it materialized, then page 2 and every item of it, up to the last page of
  \<open>pages\<close>, and no page after it. This holds for every vault, so for every outcome of the
  materializer. \<open>hasMore\<close> is the length of the answer being 100 and nothing else.
\<close>

theorem first_fetch_all_pages:
  assumes "syncEnabled (settings w)" and "settingsAreValid (settings w)"
    and "lastFetchDate (settings w) = ''''"
    and "fst (ensureTargetDirectoryExists h w) = Inr ()"
    and "serves h (settings w) 1 pages" and "length pages \<le> fuel"
  shows "(\<exists>w'. fetchStars fuel h w = Some w'
            \<and> fetch_view (emitted w w') = pages_view 1 pages
            \<and> lastFetchDate (settings w') = nowISO h)
       \<and> (\<forall>page stars. requestStars h (starredParams (settings w) page) = Inr stars \<longrightarrow>
            fst (getStarredRepos h page w) = Inr (stars, length stars = 100))"
proof
  obtain r0 w0 where d: "ensureTargetDirectoryExists h w = (r0, w0)"
    by (cases "ensureTargetDirectoryExists h w") blast
  with assms(4) have r0: "r0 = Inr ()" by simp
  note c = ensureDirs_cases [OF d [unfolded ensureTargetDirectoryExists_def]]
  from assms(5) c have "serves h (settings w0) 1 pages" by simp
  from fetchStars_pages_serves [OF this assms(6), of 0] obtain n' w1 evs
    where p: "fetchStars_pages fuel h True 1 0 w0 = Some (Inr n', w1)"
      and l: "log w1 = log w0 @ evs" and v: "fetch_view evs = pages_view 1 pages"
    by blast
  from d r0 p assms(3) c have t: "fetchStars_try fuel h w = Some (Inr n', w1)"
    by (simp add: fetchStars_try_def)
  define w2 where "w2 = saveSettings (w1\<lparr>settings := (settings w1)\<lparr>lastFetchDate := nowISO h\<rparr>\<rparr>)"
  define w' where "w' = (if n' \<noteq> 0
                      then emit (Notice (''Total '' @ show_nat n' @ '' GitHub stars'')) w2
                      else w2)"
  from assms(1,2) t have "fetchStars fuel h w = Some w'"
    by (simp add: fetchStars_def w'_def w2_def Let_def)
  moreover obtain tl where "log w' = log w @ evs @ tl" "list_all (\<lambda>e. \<not> is_fetch e) tl"
    using l c by (cases "n' = 0") (auto simp: w'_def w2_def saveSettings_def)
  then have "fetch_view (emitted w w') = pages_view 1 pages"
    using v by (simp add: emitted_def fetch_view_quiet)
  moreover have "lastFetchDate (settings w') = nowISO h"
    by (simp add: w'_def w2_def saveSettings_def)
  ultimately show "\<exists>w'. fetchStars fuel h w = Some w'
            \<and> fetch_view (emitted w w') = pages_view 1 pages
            \<and> lastFetchDate (settings w') = nowISO h"
    by blast
next
  show "\<forall>page stars. requestStars h (starredParams (settings w) page) = Inr stars \<longrightarrow>
            fst (getStarredRepos h page w) = Inr (stars, length stars = 100)"
    by (simp add: getStarredRepos_def Let_def perPage_def)
qed

theorem first_fetch_all_pages_witness:
  "syncEnabled (settings edited_world) \<and> settingsAreValid (settings edited_world)
   \<and> lastFetchDate (settings edited_world) = ''''
   \<and> fst (ensureTargetDirectoryExists two_page_host edited_world) = Inr ()
   \<and> serves two_page_host (settings edited_world) 1
        [replicate 100 demo_repo, [demo_repo\<lparr>full_name := ''bob/last''\<rparr>]]
   \<and> (\<exists>w'. fetchStars 2 two_page_host edited_world = Some w'
          \<and> fetch_view (emitted edited_world w')
              = pages_view 1 [replicate 100 demo_repo, [demo_repo\<lparr>full_name := ''bob/last''\<rparr>]]
          \<and> lastFetchDate (settings w') = nowISO two_page_host)"
proof -
  have a: "syncEnabled (settings edited_world)" and b: "settingsAreValid (settings edited_world)"
    and c: "lastFetchDate (settings edited_world) = ''''"
    and d: "fst (ensureTargetDirectoryExists two_page_host edited_world) = Inr ()"
    and e: "serves two_page_host (settings edited_world) 1
        [replicate 100 demo_repo, [demo_repo\<lparr>full_name := ''bob/last''\<rparr>]]"
    by code_simp+
  have f: "length [replicate 100 demo_repo, [demo_repo\<lparr>full_name := ''bob/last''\<rparr>]] \<le> 2"
    by simp
  from first_fetch_all_pages [OF a b c d e f, THEN conjunct1] a b c d e
  show ?thesis by (intro conjI)
qed
section \<open>The forced fetch\<close>

lemma fetchStars_backfill_view:
  assumes "syncEnabled (settings w)" and "settingsAreValid (settings w)"
    and "lastFetchDate (settings w) = ''''"
    and "\<forall>p. faults h (CreateFolder p) = None"
    and "\<forall>r stars. requestStars h r = Inr stars \<longrightarrow> length stars \<le> perPage"
  shows "map_option (\<lambda>w'. fetch_view (emitted w w')) (fetchStars fuel h w)
           = full_backfill fuel h (settings w) 1"
proof -
  from assms(4) have "fst (ensureTargetDirectoryExists h w) = Inr ()"
    unfolding ensureTargetDirectoryExists_def by (rule ensureDirs_no_fault)
  from fetchStars_backfill [OF assms(1-3) this assms(5), of fuel] show ?thesis
    by (cases "fetchStars fuel h w") (auto simp: emitted_def)
qed

text \<open>
  Claim C7. The command \<open>Fetch stars (force)\<close> clears the watermark, saves the settings
  and runs \<open>fetchStars\<close>. For a run that is enabled and configured, with a host that can
  make the directories and a remote that returns no more items than the page size, what
  it fetches is what the specification words as the first fetch: every page in order
  and every item of it, until a page is short. A first run
  on any world with the same settings and an empty watermark, whatever its vault holds,
  fetches the same. And a record with something at the path of its note adds no path and
  no file to the vault when it is materialized: the note is updated where it is.
\<close>

theorem force_is_first_fetch:
  assumes "syncEnabled (settings w)" and "settingsAreValid (settings w)"
    and "\<forall>p. faults h (CreateFolder p) = None"
    and "\<forall>r stars. requestStars h r = Inr stars \<longrightarrow> length stars \<le> perPage"
  shows "map_option (\<lambda>w'. fetch_view (emitted w w')) (fetchStarsForce fuel h w)
           = full_backfill fuel h (settings w) 1
       \<and> (\<forall>w0. settings w0 = (settings w)\<lparr>lastFetchDate := ''''\<rparr> \<longrightarrow>
            map_option (\<lambda>w'. fetch_view (emitted w0 w')) (fetchStars fuel h w0)
              = map_option (\<lambda>w'. fetch_view (emitted w w')) (fetchStarsForce fuel h w))
       \<and> (\<forall>repo. vault w (fileNameForRepo (settings w) repo) \<noteq> None \<longrightarrow>
            dom (vault (snd (createNoteForRepo h repo w))) = dom (vault w)
            \<and> files_of (snd (createNoteForRepo h repo w)) = files_of w)"
proof -
  define wf where "wf = saveSettings (w\<lparr>settings := (settings w)\<lparr>lastFetchDate := ''''\<rparr>\<rparr>)"
  have sf: "settings wf = (settings w)\<lparr>lastFetchDate := ''''\<rparr>"
    and lf: "log wf = log w @ [SaveData ((settings w)\<lparr>lastFetchDate := ''''\<rparr>)]"
    by (simp_all add: wf_def saveSettings_def)
  have same: "full_backfill fuel h ((settings w)\<lparr>lastFetchDate := ''''\<rparr>) 1
                = full_backfill fuel h (settings w) 1"
    by (rule full_backfill_cong) (simp add: starredParams_def authorization_def fun_eq_iff)
  have first: "map_option (\<lambda>w'. fetch_view (emitted w0 w')) (fetchStars fuel h w0)
                 = full_backfill fuel h (settings w) 1"
    if "settings w0 = (settings w)\<lparr>lastFetchDate := ''''\<rparr>" for w0
  proof -
    from that assms(1,2) have "syncEnabled (settings w0)" "settingsAreValid (settings w0)"
      "lastFetchDate (settings w0) = ''''"
      by (simp_all add: settingsAreValid_def)
    from fetchStars_backfill_view [OF this assms(3,4), of fuel] that same show ?thesis
      by simp
  qed
  have shift: "fetch_view (emitted w w') = fetch_view (emitted wf w')"
    if "fetchStars fuel h wf = Some w'" for w'
  proof -
    from sf assms(1,2) have en: "syncEnabled (settings wf)" "settingsAreValid (settings wf)"
      by (simp_all add: settingsAreValid_def)
    from that en obtain r w1 where t: "fetchStars_try fuel h wf = Some (r, w1)"
      by (cases "fetchStars_try fuel h wf") (auto simp: fetchStars_def)
    from fetchStars_try_grows [OF t] obtain evs where "log w1 = log wf @ evs"
      by (auto simp: grows_def)
    moreover from fetchStars_tail [OF en t] that obtain tl where "log w' = log w1 @ tl"
      by auto
    ultimately have "log w' = log w @ SaveData ((settings w)\<lparr>lastFetchDate := ''''\<rparr>) # evs @ tl"
      "log w' = log wf @ evs @ tl"
      using lf by simp_all
    then have "emitted w w' = SaveData ((settings w)\<lparr>lastFetchDate := ''''\<rparr>) # evs @ tl"
      "emitted wf w' = evs @ tl"
      by (simp_all add: emitted_def)
    then show ?thesis by (simp add: fetch_view_Cons)
  qed
  have force: "map_option (\<lambda>w'. fetch_view (emitted w w')) (fetchStarsForce fuel h w)
                 = full_backfill fuel h (settings w) 1"
  proof -
    have "map_option (\<lambda>w'. fetch_view (emitted w w')) (fetchStars fuel h wf)
            = map_option (\<lambda>w'. fetch_view (emitted wf w')) (fetchStars fuel h wf)"
      using shift by (cases "fetchStars fuel h wf") simp_all
    with first [OF sf] show ?thesis
      by (simp add: fetchStarsForce_def wf_def)
  qed
  from force first createNoteForRepo_existing show ?thesis
    by (intro conjI allI impI) simp_all
qed

theorem force_is_first_fetch_witness:
  "syncEnabled (settings synced_world) \<and> settingsAreValid (settings synced_world)
   \<and> map_option (\<lambda>w'. fetch_view (emitted synced_world w'))
       (fetchStarsForce 2 two_page_host synced_world)
     = Some (pages_view 1 [replicate 100 demo_repo, [demo_repo\<lparr>full_name := ''bob/last''\<rparr>]])
   \<and> map_option (\<lambda>w'. fetch_view (emitted fresh_world w')) (fetchStars 2 two_page_host fresh_world)
     = map_option (\<lambda>w'. fetch_view (emitted synced_world w'))
         (fetchStarsForce 2 two_page_host synced_world)
   \<and> vault synced_world (fileNameForRepo (settings synced_world) demo_repo) \<noteq> None
   \<and> files_of (snd (createNoteForRepo two_page_host demo_repo synced_world)) = files_of synced_world"
proof -
  have a: "syncEnabled (settings synced_world)" and b: "settingsAreValid (settings synced_world)"
    by code_simp+
  have c: "\<forall>p. faults two_page_host (CreateFolder p) = None"
    by (simp add: two_page_host_def quiet_host_def)
  have d: "settings fresh_world = (settings synced_world)\<lparr>lastFetchDate := ''''\<rparr>"
    by (simp add: fresh_world_def synced_world_def alice_settings_def DEFAULT_SETTINGS_def)
  have e: "vault synced_world (fileNameForRepo (settings synced_world) demo_repo) \<noteq> None"
    by code_simp
  have f: "full_backfill 2 two_page_host (settings synced_world) 1
             = Some (pages_view 1 [replicate 100 demo_repo, [demo_repo\<lparr>full_name := ''bob/last''\<rparr>]])"
    by code_simp
  have g: "\<forall>r stars. requestStars two_page_host r = Inr stars \<longrightarrow> length stars \<le> perPage"
    by (auto simp: two_page_host_def perPage_def split: if_splits)
  note t = force_is_first_fetch [OF a b c g, of 2]
  from t [THEN conjunct1] f
  have 1: "map_option (\<lambda>w'. fetch_view (emitted synced_world w'))
             (fetchStarsForce 2 two_page_host synced_world)
           = Some (pages_view 1 [replicate 100 demo_repo, [demo_repo\<lparr>full_name := ''bob/last''\<rparr>]])"
    by simp
  note 2 = t [THEN conjunct2, THEN conjunct1, rule_format, OF d]
  note 3 = t [THEN conjunct2, THEN conjunct2, rule_format, OF e, THEN conjunct2]
  from a b 1 2 e 3 show ?thesis
    by (intro conjI)
qed
section \<open>Running the sync again\<close>

lemma files_of_is_file: "(p \<in> files_of w) = is_file w p"
  by (auto simp: files_of_def is_file_def split: option.splits entry.splits)

text \<open>
  Claim C6 says that a second run with the same listing and a watermark that is not
  empty creates no file, because its first item has a note. It has none when the first
  run could not create the notes: that run writes the errors to the console and still
  sets the watermark. The second run then does not stop at the first item, with the same
  vault or another, and with a vault that creates files again it creates all three
  notes.
\<close>

theorem second_run_creates_files_counterexample:
  "lastFetchDate (settings watermarked_world) \<noteq> ''''
   \<and> requestStars readonly_three_host = requestStars three_stars_host
   \<and> fetchStars 1 readonly_three_host watermarked_world = Some after_failed_run
   \<and> lastFetchDate (settings after_failed_run) \<noteq> ''''
   \<and> ''gh/bob-new.md'' \<notin> files_of after_failed_run
   \<and> ''gh/bob-demo.md'' \<notin> files_of after_failed_run
   \<and> ''gh/bob-old.md'' \<notin> files_of after_failed_run
   \<and> fetchStars 1 three_stars_host after_failed_run = Some after_retry_run
   \<and> ''gh/bob-new.md'' \<in> files_of after_retry_run
   \<and> ''gh/bob-demo.md'' \<in> files_of after_retry_run
   \<and> ''gh/bob-old.md'' \<in> files_of after_retry_run
   \<and> fetch_view (emitted after_failed_run after_retry_run)
       = [Page 1, StarItem (demo_repo\<lparr>full_name := ''bob/new''\<rparr>), StarItem demo_repo,
          StarItem (demo_repo\<lparr>full_name := ''bob/old''\<rparr>)]
   \<and> fetchStars 1 readonly_three_host after_failed_run = Some after_failed_again
   \<and> fetch_view (emitted after_failed_run after_failed_again)
       = [Page 1, StarItem (demo_repo\<lparr>full_name := ''bob/new''\<rparr>), StarItem demo_repo,
          StarItem (demo_repo\<lparr>full_name := ''bob/old''\<rparr>)]"
proof -
  have "fetchStars 1 readonly_three_host watermarked_world \<noteq> None"
    by code_simp
  then have run1: "fetchStars 1 readonly_three_host watermarked_world = Some after_failed_run"
    by (auto simp: after_failed_run_def)
  have "fetchStars 1 three_stars_host after_failed_run \<noteq> None"
    by code_simp
  then have run2: "fetchStars 1 three_stars_host after_failed_run = Some after_retry_run"
    by (auto simp: after_retry_run_def)
  have "fetchStars 1 readonly_three_host after_failed_run \<noteq> None"
    by code_simp
  then have run3: "fetchStars 1 readonly_three_host after_failed_run = Some after_failed_again"
    by (auto simp: after_failed_again_def)
  have same: "requestStars readonly_three_host = requestStars three_stars_host"
    by (simp add: readonly_three_host_def)
  have "lastFetchDate (settings watermarked_world) \<noteq> ''''"
    and "lastFetchDate (settings after_failed_run) \<noteq> ''''"
    and "\<not> is_file after_failed_run ''gh/bob-new.md''"
    and "\<not> is_file after_failed_run ''gh/bob-demo.md''"
    and "\<not> is_file after_failed_run ''gh/bob-old.md''"
    and "is_file after_retry_run ''gh/bob-new.md''"
    and "is_file after_retry_run ''gh/bob-demo.md''"
    and "is_file after_retry_run ''gh/bob-old.md''"
    and "fetch_view (emitted after_failed_run after_retry_run)
       = [Page 1, StarItem (demo_repo\<lparr>full_name := ''bob/new''\<rparr>), StarItem demo_repo,
          StarItem (demo_repo\<lparr>full_name := ''bob/old''\<rparr>)]"
    and "fetch_view (emitted after_failed_run after_failed_again)
       = [Page 1, StarItem (demo_repo\<lparr>full_name := ''bob/new''\<rparr>), StarItem demo_repo,
          StarItem (demo_repo\<lparr>full_name := ''bob/old''\<rparr>)]"
    by code_simp+
  with run1 run2 run3 same show ?thesis
    unfolding files_of_is_file by (intro conjI)
qed

text \<open>
  Claim C6 as amended. Let a run of \<open>fetchStars\<close> return without an error written to the
  console, and let the watermark not be empty after it. Then a second run on the world of
  the first, with the same host and so the same listing, returns as soon as it has fuel
  for one page, and the files of the vault are the same after it as before it: no file is
  created. If the first page of the listing has a first item, the second run requests
  that page, materializes that item, which exists, and fetches nothing else.
\<close>

theorem second_run_creates_nothing:
  assumes "fetchStars fuel h w = Some w1"
    and "list_all (\<lambda>e. \<not> is_error e) (emitted w w1)"
    and "lastFetchDate (settings w1) \<noteq> ''''"
    and "0 < fuel2"
  shows "\<exists>w2. fetchStars fuel2 h w1 = Some w2
           \<and> files_of w2 = files_of w1
           \<and> (\<forall>repo rest. syncEnabled (settings w1) \<longrightarrow> settingsAreValid (settings w1) \<longrightarrow>
                 requestStars h (starredParams (settings w1) 1) = Inr (repo # rest) \<longrightarrow>
                 fetch_view (emitted w1 w2) = [Page 1, StarItem repo])"
proof (cases "syncEnabled (settings w) \<and> settingsAreValid (settings w)")
  case False
  with assms(1) obtain msg where w1: "w1 = emit (Notice msg) w"
    by (auto simp: fetchStars_def split: if_splits)
  then have s1: "settings w1 = settings w" by simp
  define msg2 where "msg2 = (if \<not> syncEnabled (settings w)
       then ''Sync is disabled. Enable it in settings to fetch stars.''
       else ''Please set both GitHub username and target directory in settings.'')"
  from False s1 have "fetchStars fuel2 h w1 = Some (emit (Notice msg2) w1)"
    by (auto simp: fetchStars_def msg2_def)
  moreover have "files_of (emit (Notice msg2) w1) = files_of w1"
    by (simp add: files_of_def)
  ultimately show ?thesis
    using False s1 by auto
next
  case True
  then have en: "syncEnabled (settings w)" "settingsAreValid (settings w)" by simp_all
  from assms(1) en obtain r wT where t: "fetchStars_try fuel h w = Some (r, wT)"
    by (cases "fetchStars_try fuel h w") (auto simp: fetchStars_def)
  from fetchStars_try_grows [OF t] obtain evsT
    where sT: "settings wT = settings w" and lT: "log wT = log w @ evsT"
    by (auto simp: grows_def)
  from fetchStars_tail [OF en t] assms(1) obtain tl
    where l1: "log w1 = log wT @ tl" and v1: "vault w1 = vault wT"
    by auto
  have r: "\<exists>n. r = Inr n"
  proof (cases r)
    case (Inl e)
    with en t assms(1) have "w1 = emit (Notice (''Error fetching GitHub stars: '' @ message e))
                     (emit (ConsoleError ''Error fetching GitHub stars:'' e) wT)"
      by (simp add: fetchStars_def)
    with lT have "ConsoleError ''Error fetching GitHub stars:'' e \<in> set (emitted w w1)"
      by (simp add: emitted_def)
    with assms(2) show ?thesis
      by (auto simp: list_all_iff)
  next
    case (Inr n)
    then show ?thesis by blast
  qed
  then obtain n where rn: "r = Inr n" by blast
  with en t assms(1) have s1: "settings w1 = (settings w)\<lparr>lastFetchDate := nowISO h\<rparr>"
    using sT by (auto simp: fetchStars_def saveSettings_def Let_def split: if_splits)
  then have en1: "syncEnabled (settings w1)" "settingsAreValid (settings w1)"
    and td: "targetDirectory (settings w1) = targetDirectory (settings w)"
    and sp: "starredParams (settings w1) 1 = starredParams (settings w) 1"
    using en by (simp_all add: settingsAreValid_def starredParams_def authorization_def)
  have fn: "fileNameForRepo (settings w1) repo = fileNameForRepo (settings w) repo" for repo
    using td by (simp add: fileNameForRepo_def)
  obtain r0 w0 where d: "ensureTargetDirectoryExists h w = (r0, w0)"
    by (cases "ensureTargetDirectoryExists h w") blast
  note dc = ensureDirs_cases [OF d [unfolded ensureTargetDirectoryExists_def]]
  from d t rn have r0: "r0 = Inr ()"
    by (cases r0) (auto simp: fetchStars_try_def)
  with d t rn obtain ff where p: "fetchStars_pages fuel h ff 1 0 w0 = Some (Inr n, wT)"
    by (auto simp: fetchStars_try_def)
  from fetchStars_pages_grows [OF p] v1
  have mono: "\<forall>q. vault w0 q \<noteq> None \<longrightarrow> vault w1 q \<noteq> None"
    by (simp add: grows_def)
  from d r0 have "ensureDirs h '''' (path_segments (targetDirectory (settings w))) w = (Inr (), w0)"
    by (simp add: ensureTargetDirectoryExists_def)
  from ensureDirs_again [OF this mono] td
  have d1: "ensureTargetDirectoryExists h w1 = (Inr (), w1)"
    by (simp add: ensureTargetDirectoryExists_def)
  from assms(4) obtain f2 where f2: "fuel2 = Suc f2" by (cases fuel2) auto
  from p obtain f where f: "fuel = Suc f" by (cases fuel) auto
  from d1 assms(3)
  have t2: "fetchStars_try fuel2 h w1 = fetchStars_pages (Suc f2) h False 1 0 w1"
    by (simp add: fetchStars_try_def f2 del: fetchStars_pages.simps)
  have rq0: "starredParams (settings w0) 1 = starredParams (settings w) 1"
    using dc by simp
  show ?thesis
  proof (cases "requestStars h (starredParams (settings w) 1)")
    case (Inl e)
    with rq0 have "requestStars h (starredParams (settings w0) 1) = Inl e" by simp
    from fetchStars_pages_error [OF this, of f ff 0] p show ?thesis
      by (simp add: f)
  next
    case (Inr stars)
    show ?thesis
    proof (cases stars)
      case Nil
      with Inr sp have "requestStars h (starredParams (settings w1) 1) = Inr []" by simp
      from fetchStars_pages_empty [OF this, of f2 False] t2
      have "fetchStars_try fuel2 h w1
              = Some (Inr 0, emit (HttpGet (starredParams (settings w1) 1)) w1)"
        by simp
      from fetchStars_tail [OF en1 this] obtain w2
        where "fetchStars fuel2 h w1 = Some w2" and "vault w2 = vault w1"
        by auto
      moreover from this have "files_of w2 = files_of w1"
        by (simp add: files_of_def)
      ultimately show ?thesis
        using Inr Nil sp by auto
    next
      case (Cons repo rest)
      with Inr rq0 have "requestStars h (starredParams (settings w0) 1) = Inr (repo # rest)"
        by simp
      from fetchStars_pages_first_item [OF p this] obtain evs0 b more
        where lg: "log wT = log w0 @ HttpGet (starredParams (settings w0) 1) # evs0
                     @ RepoNote repo b # more"
          and ex: "list_all (\<lambda>e. \<not> is_error e) evs0 \<longrightarrow>
                     vault wT (fileNameForRepo (settings w0) repo) \<noteq> None"
        by blast
      from lg l1 dc
      have "emitted w w1 = HttpGet (starredParams (settings w0) 1) # evs0
                             @ RepoNote repo b # more @ tl"
        by (simp add: emitted_def)
      with assms(2) have "list_all (\<lambda>e. \<not> is_error e) evs0" by simp
      with ex v1 dc fn have there: "vault w1 (fileNameForRepo (settings w1) repo) \<noteq> None"
        by (simp add: fileNameForRepo_def)
      from Inr Cons sp
      have rq1: "requestStars h (starredParams (settings w1) 1) = Inr (repo # rest)"
        by simp
      from fetchStars_pages_existing_first [OF rq1 there, of f2] obtain w' evs
        where p2: "fetchStars_pages (Suc f2) h False 1 0 w1 = Some (Inr 0, w')"
          and fl: "files_of w' = files_of w1"
          and l': "log w' = log w1 @ evs" and vw: "fetch_view evs = [Page 1, StarItem repo]"
        by blast
      from t2 p2 have "fetchStars_try fuel2 h w1 = Some (Inr 0, w')" by simp
      from fetchStars_tail [OF en1 this] obtain w2 tl2
        where run: "fetchStars fuel2 h w1 = Some w2" and l2: "log w2 = log w' @ tl2"
          and q2: "list_all (\<lambda>e. \<not> is_fetch e) tl2" and v2: "vault w2 = vault w'"
        by auto
      from v2 fl have "files_of w2 = files_of w1"
        by (simp add: files_of_def)
      moreover from l2 l' vw q2 have "fetch_view (emitted w1 w2) = [Page 1, StarItem repo]"
        by (simp add: emitted_def fetch_view_quiet)
      ultimately show ?thesis
        using run rq1 by auto
    qed
  qed
qed

theorem second_run_creates_nothing_witness:
  "(\<exists>w1. fetchStars 1 three_stars_host empty_world = Some w1
       \<and> list_all (\<lambda>e. \<not> is_error e) (emitted empty_world w1)
       \<and> lastFetchDate (settings w1) \<noteq> ''''
       \<and> (\<exists>w2. fetchStars 1 three_stars_host w1 = Some w2
              \<and> files_of w2 = files_of w1
              \<and> fetch_view (emitted w1 w2) = [Page 1, StarItem (demo_repo\<lparr>full_name := ''bob/new''\<rparr>)]))"
proof -
  have "fetchStars 1 three_stars_host empty_world \<noteq> None"
    by code_simp
  then obtain w1 where r: "fetchStars 1 three_stars_host empty_world = Some w1"
    by blast
  have "map_option (\<lambda>w1. list_all (\<lambda>e. \<not> is_error e) (emitted empty_world w1))
          (fetchStars 1 three_stars_host empty_world) = Some True"
    by code_simp
  with r have a: "list_all (\<lambda>e. \<not> is_error e) (emitted empty_world w1)" by simp
  have "map_option (\<lambda>w1. settings w1) (fetchStars 1 three_stars_host empty_world)
          = Some ((settings empty_world)\<lparr>lastFetchDate := ''2024-05-06T07:08:09.000Z''\<rparr>)"
    by code_simp
  with r have s: "settings w1 = (settings empty_world)\<lparr>lastFetchDate := ''2024-05-06T07:08:09.000Z''\<rparr>"
    by simp
  then have b: "lastFetchDate (settings w1) \<noteq> ''''" by simp
  from s have en: "syncEnabled (settings w1)" "settingsAreValid (settings w1)"
    by (simp_all add: empty_world_def alice_settings_def DEFAULT_SETTINGS_def settingsAreValid_def)
  from s have rq: "requestStars three_stars_host (starredParams (settings w1) 1)
                     = Inr (demo_repo\<lparr>full_name := ''bob/new''\<rparr>
                            # [demo_repo, demo_repo\<lparr>full_name := ''bob/old''\<rparr>])"
    by (simp add: three_stars_host_def quiet_host_def starredParams_def)
  from second_run_creates_nothing [OF r a b, of 1] obtain w2
    where "fetchStars 1 three_stars_host w1 = Some w2" "files_of w2 = files_of w1"
      and v: "\<forall>repo rest. syncEnabled (settings w1) \<longrightarrow> settingsAreValid (settings w1) \<longrightarrow>
                 requestStars three_stars_host (starredParams (settings w1) 1) = Inr (repo # rest) \<longrightarrow>
                 fetch_view (emitted w1 w2) = [Page 1, StarItem repo]"
    by auto
  moreover from v [rule_format, OF en rq]
  have "fetch_view (emitted w1 w2) = [Page 1, StarItem (demo_repo\<lparr>full_name := ''bob/new''\<rparr>)]" .
  ultimately show ?thesis
    using r a b by blast
qed

end
